theory Spec2Isabelle
  imports Main
begin

section \<open>JavaScript values\<close>

text \<open>
  Text is modelled as \<^typ>\<open>string\<close>: the characters are the UTF-8 bytes of the text, so the
  check mark of \<open>list_todos\<close> and the arrow of \<open>update_todo\<close> are three characters each.
  A JSON value is what \<open>JSON.parse\<close> returns; \<open>undefined\<close> is \<^term>\<open>None\<close> of
  \<open>json option\<close>. A number is kept as its source text: the model does not compute with
  floating point, it prints a number as it was written and takes it for zero when its
  mantissa has no digit other than 0.
\<close>

datatype json =
    JNull
  | JBool bool
  | JNum string
  | JStr string
  | JArr "json list"
  | JObj "(string \<times> json) list"

datatype exn = TypeError | SyntaxError | NetworkError

definition mantissa :: "string \<Rightarrow> string" where
  "mantissa n = takeWhile (\<lambda>c. c \<noteq> CHR ''e'' \<and> c \<noteq> CHR ''E'') n"

text \<open>JavaScript truthiness, as used by \<open>if (x)\<close>, \<open>!x\<close>, \<open>x || y\<close> and \<open>x ? a : b\<close>.\<close>

fun truthy :: "json option \<Rightarrow> bool" where
  "truthy None = False"
| "truthy (Some JNull) = False"
| "truthy (Some (JBool b)) = b"
| "truthy (Some (JNum n)) = list_ex (\<lambda>c. c \<in> set ''123456789'') (mantissa n)"
| "truthy (Some (JStr s)) = (s \<noteq> [])"
| "truthy (Some (JArr xs)) = True"
| "truthy (Some (JObj kvs)) = True"

fun join :: "string \<Rightarrow> string list \<Rightarrow> string" where
  "join sep [] = []"
| "join sep [x] = x"
| "join sep (x # y # ys) = x @ sep @ join sep (y # ys)"

text \<open>String conversion of a value, as a template literal and \<open>+=\<close> on a string do it.\<close>

fun to_string :: "json \<Rightarrow> string" where
  "to_string JNull = ''null''"
| "to_string (JBool b) = (if b then ''true'' else ''false'')"
| "to_string (JNum n) = n"
| "to_string (JStr s) = s"
| "to_string (JArr xs) = join '','' (map (\<lambda>x. if x = JNull then [] else to_string x) xs)"
| "to_string (JObj kvs) = ''[object Object]''"

definition js_string :: "json option \<Rightarrow> string" where
  "js_string v = (case v of None \<Rightarrow> ''undefined'' | Some x \<Rightarrow> to_string x)"

text \<open>
  Reading a property that is not a built-in one (\<open>title\<close>, \<open>choices\<close>, ...) of a value which
  is neither \<open>null\<close> nor \<open>undefined\<close>: only an object has it, and of two members with one
  name the later wins. Reading a property of \<open>null\<close> throws; every caller tests for
  \<^term>\<open>JNull\<close> first.
\<close>

fun js_prop :: "json \<Rightarrow> string \<Rightarrow> json option" where
  "js_prop (JObj kvs) k = map_of (rev kvs) k"
| "js_prop _ k = None"

section \<open>The task store\<close>

text \<open>
  The table \<open>todos\<close> of the migrations: \<open>id\<close> is the primary key, generated by the store
  (a counter stands for \<open>gen_random_uuid()\<close>), \<open>title\<close> is \<open>NOT NULL\<close>, \<open>completed\<close>
  defaults to false, \<open>created_at\<close> and \<open>updated_at\<close> default to \<open>now()\<close> (a logical clock),
  and a trigger refreshes \<open>updated_at\<close> on every update. The rows are kept in the order in
  which the store scans them. What the model leaves to the store is whether it accepts a
  request (a user id that is not a known uuid, a due date that is not a timestamp, a
  connection that fails): \<open>fault\<close> of the environment says which requests are rejected,
  with which message, and a rejected request changes nothing.
\<close>

record todo =
  todo_id :: nat
  user_id :: string
  title :: string
  completed :: bool
  due_at :: "string option"
  created_at :: nat
  updated_at :: nat

record db =
  rows :: "todo list"
  next_id :: nat
  clock :: nat

text \<open>The requests the executor sends to the store, one constructor per query shape.\<close>

datatype store_op =
    Insert string "json option" "json option"
  | SelectAll string "json option"
  | SelectLike string string
  | UpdateCompleted nat bool
  | UpdateTitle nat "json option"
  | DeleteCompleted string
  | DeleteById nat

definition lower :: "char \<Rightarrow> char" where
  "lower c = (if 65 \<le> (of_char c :: nat) \<and> (of_char c :: nat) \<le> 90
              then char_of (of_char c + 32 :: nat) else c)"

text \<open>
  \<open>ILIKE\<close>: \<open>%\<close> matches any run of characters, \<open>_\<close> any one character, a backslash
  takes the next pattern character literally; letters match without regard to case. On
  the UTF-8 text of the model a character is a byte and the letters are the ASCII ones.
\<close>

fun ilike :: "string \<Rightarrow> string \<Rightarrow> bool" where
  "ilike [] s = (s = [])"
| "ilike (p # ps) s =
     (if p = CHR ''%'' then
        ilike ps s \<or> (case s of [] \<Rightarrow> False | c # s' \<Rightarrow> ilike (p # ps) s')
      else if p = CHR ''_'' then
        (case s of [] \<Rightarrow> False | c # s' \<Rightarrow> ilike ps s')
      else if p = CHR 0x5C then
        (case ps of [] \<Rightarrow> False
         | q # qs \<Rightarrow> (case s of [] \<Rightarrow> False | c # s' \<Rightarrow> lower c = lower q \<and> ilike qs s'))
      else
        (case s of [] \<Rightarrow> False | c # s' \<Rightarrow> lower c = lower p \<and> ilike ps s'))"


section \<open>JSON text\<close>

definition hex_digit :: "nat \<Rightarrow> char" where
  "hex_digit n = (if n < 10 then char_of (48 + n) else char_of (87 + n))"

text \<open>
  \<open>JSON.stringify\<close> on the characters of a string: the quote and the backslash are
  escaped, the control characters below 0x20 become \<open>\b \t \n \f \r\<close> or \<open>\u00XX\<close>, every
  other character is copied.
\<close>

definition quote_char :: "char \<Rightarrow> string" where
  "quote_char c =
     (if c = CHR 0x22 then [CHR 0x5C, CHR 0x22]
      else if c = CHR 0x5C then [CHR 0x5C, CHR 0x5C]
      else if c = CHR 0x08 then [CHR 0x5C, CHR ''b'']
      else if c = CHR 0x09 then [CHR 0x5C, CHR ''t'']
      else if c = CHR 0x0A then [CHR 0x5C, CHR ''n'']
      else if c = CHR 0x0C then [CHR 0x5C, CHR ''f'']
      else if c = CHR 0x0D then [CHR 0x5C, CHR ''r'']
      else if (of_char c :: nat) < 32 then
        [CHR 0x5C, CHR ''u'', CHR ''0'', CHR ''0'',
         hex_digit (of_char c div 16), hex_digit (of_char c mod 16)]
      else [c])"

definition quote :: "string \<Rightarrow> string" where
  "quote s = CHR 0x22 # concat (map quote_char s) @ [CHR 0x22]"

fun stringify :: "json \<Rightarrow> string" where
  "stringify JNull = ''null''"
| "stringify (JBool b) = (if b then ''true'' else ''false'')"
| "stringify (JNum n) = n"
| "stringify (JStr s) = quote s"
| "stringify (JArr xs) = ''['' @ join '','' (map stringify xs) @ '']''"
| "stringify (JObj kvs) =
     ''{'' @ join '','' (map (\<lambda>kv. quote (fst kv) @ '':'' @ stringify (snd kv)) kvs) @ ''}''"

section \<open>The store's operations\<close>

definition title_not_null :: string where
  "title_not_null = ''null value in column title violates not-null constraint''"

definition invalid_boolean :: string where
  "invalid_boolean = ''invalid input syntax for type boolean''"

text \<open>The text stored in a column for a JSON value: a string as it is, anything else as JSON.\<close>

definition column_text :: "json \<Rightarrow> string" where
  "column_text v = (case v of JStr s \<Rightarrow> s | _ \<Rightarrow> stringify v)"

definition new_row :: "db \<Rightarrow> string \<Rightarrow> json \<Rightarrow> json option \<Rightarrow> todo" where
  "new_row s u t d =
     \<lparr>todo_id = next_id s, user_id = u, title = column_text t, completed = False,
      due_at = map_option column_text d, created_at = clock s, updated_at = clock s\<rparr>"

text \<open>
  What the store does with a request it accepts: the answer is an error message or the
  selected rows, together with the new table. \<open>order("created_at", {ascending: false})\<close>
  is the reversed stable sort; \<open>limit(1)\<close> keeps the first row of the scan.
\<close>

fun store_exec :: "store_op \<Rightarrow> db \<Rightarrow> (string + todo list) \<times> db" where
  "store_exec (Insert u t d) s =
     (case t of
        None \<Rightarrow> (Inl title_not_null, s)
      | Some JNull \<Rightarrow> (Inl title_not_null, s)
      | Some v \<Rightarrow>
          (Inr [], s\<lparr>rows := rows s @ [new_row s u v d],
                     next_id := Suc (next_id s), clock := Suc (clock s)\<rparr>))"
| "store_exec (SelectAll u f) s =
     (case f of
        None \<Rightarrow>
          (Inr (rev (sort_key created_at (filter (\<lambda>r. user_id r = u) (rows s)))), s)
      | Some (JBool b) \<Rightarrow>
          (Inr (rev (sort_key created_at
                  (filter (\<lambda>r. user_id r = u \<and> completed r = b) (rows s)))), s)
      | Some _ \<Rightarrow> (Inl invalid_boolean, s))"
| "store_exec (SelectLike u p) s =
     (Inr (take 1 (filter (\<lambda>r. user_id r = u \<and> ilike p (title r)) (rows s))), s)"
| "store_exec (UpdateCompleted i b) s =
     (Inr [], s\<lparr>rows := map (\<lambda>r. if todo_id r = i
                                   then r\<lparr>completed := b, updated_at := clock s\<rparr> else r) (rows s),
                clock := Suc (clock s)\<rparr>)"
| "store_exec (UpdateTitle i t) s =
     (case t of
        None \<Rightarrow> (Inr [], s)
      | Some JNull \<Rightarrow> (Inl title_not_null, s)
      | Some v \<Rightarrow>
          (Inr [], s\<lparr>rows := map (\<lambda>r. if todo_id r = i
                                        then r\<lparr>title := column_text v, updated_at := clock s\<rparr>
                                        else r) (rows s),
                     clock := Suc (clock s)\<rparr>))"
| "store_exec (DeleteCompleted u) s =
     (Inr [], s\<lparr>rows := filter (\<lambda>r. \<not> (user_id r = u \<and> completed r)) (rows s)\<rparr>)"
| "store_exec (DeleteById i) s =
     (Inr [], s\<lparr>rows := filter (\<lambda>r. todo_id r \<noteq> i) (rows s)\<rparr>)"

section \<open>Messages, tool calls and the model endpoint\<close>

record tool_call =
  call_id :: string
  fn_name :: string
  fn_arguments :: string

text \<open>
  The message of a completion: \<open>content\<close> is a text or null, \<open>tool_calls\<close> is absent
  (\<^term>\<open>None\<close>) or an array, which may be empty.
\<close>

record assistant_msg =
  content :: "string option"
  tool_calls :: "tool_call list option"

datatype message =
    System string
  | Client "json option" "json option"
  | Assistant assistant_msg
  | ToolResult string string

record param =
  param_name :: string
  param_type :: string
  param_description :: string

record tool =
  tool_name :: string
  tool_description :: string
  tool_properties :: "param list"
  tool_required :: "string list"

record completion_request =
  req_model :: string
  req_messages :: "message list"
  req_tools :: "tool list"
  req_stream :: bool

text \<open>
  The answer of the endpoint: \<open>response.ok\<close> is a status from 200 to 299;
  \<open>resp_text\<close> is the body as text; \<open>resp_message\<close> is \<open>result.choices[0].message\<close>
  of the body as JSON, or the exception that reading it throws.
\<close>

record completion_response =
  resp_status :: nat
  resp_text :: string
  resp_message :: "exn + assistant_msg"

definition ok :: "completion_response \<Rightarrow> bool" where
  "ok r = (200 \<le> resp_status r \<and> resp_status r \<le> 299)"

text \<open>
  What the handler does not control: which requests the store rejects and with which
  message, how the platform prints a date, what the model endpoint answers to a request
  (or the exception of a \<open>fetch\<close> that fails), and the time of day as
  \<open>new Date().toISOString()\<close> gives it.
\<close>

record env =
  fault :: "store_op \<Rightarrow> string option"
  toLocaleDateString :: "string \<Rightarrow> string"
  completions :: "completion_request \<Rightarrow> exn + completion_response"
  now :: string

definition store_call :: "env \<Rightarrow> store_op \<Rightarrow> db \<Rightarrow> (string + todo list) \<times> db" where
  "store_call e op s = (case fault e op of Some m \<Rightarrow> (Inl m, s) | None \<Rightarrow> store_exec op s)"


section \<open>The tool catalog\<close>

definition tools :: "tool list" where
  "tools =
    [\<lparr>tool_name = ''add_todo'',
      tool_description = ''Add a new task/todo for the user. Can optionally set a due date.'',
      tool_properties =
        [\<lparr>param_name = ''title'', param_type = ''string'',
          param_description = ''The title of the task''\<rparr>,
         \<lparr>param_name = ''due_at'', param_type = ''string'',
          param_description = ''Optional ISO 8601 due date/time. e.g. '' @ [CHR 0x27]
            @ ''2026-02-15T09:00:00Z'' @ [CHR 0x27]
            @ ''. Parse natural language dates relative to today.''\<rparr>],
      tool_required = [''title'']\<rparr>,
     \<lparr>tool_name = ''list_todos'',
      tool_description = ''List all tasks/todos for the user. Can filter by completion status.'',
      tool_properties =
        [\<lparr>param_name = ''completed'', param_type = ''boolean'',
          param_description = ''Filter by completed status. Omit to list all.''\<rparr>],
      tool_required = []\<rparr>,
     \<lparr>tool_name = ''toggle_todo'',
      tool_description = ''Toggle the completion status of a task by its title (partial match)'',
      tool_properties =
        [\<lparr>param_name = ''title'', param_type = ''string'',
          param_description = ''Title or partial title of the task to toggle''\<rparr>],
      tool_required = [''title'']\<rparr>,
     \<lparr>tool_name = ''delete_todo'',
      tool_description =
        ''Delete a task by its title (partial match). Can also delete all completed tasks.'',
      tool_properties =
        [\<lparr>param_name = ''title'', param_type = ''string'',
          param_description = ''Title or partial title. Use '' @ [CHR 0x27] @ ''__completed__''
            @ [CHR 0x27] @ '' to delete all completed tasks.''\<rparr>],
      tool_required = [''title'']\<rparr>,
     \<lparr>tool_name = ''update_todo'',
      tool_description = ''Update the title of an existing task'',
      tool_properties =
        [\<lparr>param_name = ''old_title'', param_type = ''string'',
          param_description = ''Current title or partial match''\<rparr>,
         \<lparr>param_name = ''new_title'', param_type = ''string'',
          param_description = ''New title for the task''\<rparr>],
      tool_required = [''old_title'', ''new_title'']\<rparr>]"

section \<open>The tool executor\<close>

fun show_nat :: "nat \<Rightarrow> string" where
  "show_nat n =
     (if n < 10 then [char_of (48 + n)] else show_nat (n div 10) @ [char_of (48 + n mod 10)])"

declare show_nat.simps [simp del]

definition dq :: string where
  "dq = [CHR 0x22]"

definition check_mark :: string where
  "check_mark = [CHR 0xE2, CHR 0x9C, CHR 0x93]"

definition arrow :: string where
  "arrow = [CHR 0xE2, CHR 0x86, CHR 0x92]"

text \<open>
  The result of one call of \<open>executeTool\<close>: the exception it throws or the text it
  returns, the table afterwards, and the requests it sent to the store, in order.
\<close>

type_synonym outcome = "(exn + string) \<times> db \<times> store_op list"

definition add_todo :: "env \<Rightarrow> json \<Rightarrow> string \<Rightarrow> db \<Rightarrow> outcome" where
  "add_todo e args userId s =
     (if args = JNull then (Inl TypeError, s, [])
      else
        let op = Insert userId (js_prop args ''title'')
                   (if truthy (js_prop args ''due_at'') then js_prop args ''due_at'' else None);
            (r, s') = store_call e op s;
            dueStr = (if truthy (js_prop args ''due_at'')
                      then '' (due: '' @ js_string (js_prop args ''due_at'') @ '')'' else [])
        in (case r of
              Inl m \<Rightarrow> (Inr (''Error: '' @ m), s', [op])
            | Inr _ \<Rightarrow>
                (Inr (''Added task: '' @ dq @ js_string (js_prop args ''title'') @ dq @ dueStr),
                 s', [op])))"

definition list_line :: "env \<Rightarrow> nat \<times> todo \<Rightarrow> string" where
  "list_line e it =
     (let i = fst it; t = snd it;
          due = (case due_at t of
                   None \<Rightarrow> []
                 | Some d \<Rightarrow> if d = [] then [] else '' [due: '' @ toLocaleDateString e d @ '']'')
      in show_nat (i + 1) @ ''. ['' @ (if completed t then check_mark else '' '') @ ''] ''
           @ title t @ due)"

definition list_todos :: "env \<Rightarrow> json \<Rightarrow> string \<Rightarrow> db \<Rightarrow> outcome" where
  "list_todos e args userId s =
     (if args = JNull then (Inl TypeError, s, [])
      else
        let op = SelectAll userId (js_prop args ''completed'');
            (r, s') = store_call e op s
        in (case r of
              Inl m \<Rightarrow> (Inr (''Error: '' @ m), s', [op])
            | Inr data \<Rightarrow>
                if data = [] then (Inr ''No tasks found.'', s', [op])
                else (Inr (join [CHR 0x0A] (map (list_line e) (enumerate 0 data))), s', [op])))"

definition no_match :: "json option \<Rightarrow> string" where
  "no_match t = ''No task found matching '' @ dq @ js_string t @ dq"

definition toggle_todo :: "env \<Rightarrow> json \<Rightarrow> string \<Rightarrow> db \<Rightarrow> outcome" where
  "toggle_todo e args userId s =
     (if args = JNull then (Inl TypeError, s, [])
      else
        let op1 = SelectLike userId (''%'' @ js_string (js_prop args ''title'') @ ''%'');
            (r1, s1) = store_call e op1 s
        in (case r1 of
              Inl m \<Rightarrow> (Inr (no_match (js_prop args ''title'')), s1, [op1])
            | Inr [] \<Rightarrow> (Inr (no_match (js_prop args ''title'')), s1, [op1])
            | Inr (todo # rest) \<Rightarrow>
                let op2 = UpdateCompleted (todo_id todo) (\<not> completed todo);
                    (r2, s2) = store_call e op2 s1
                in (case r2 of
                      Inl m \<Rightarrow> (Inr (''Error: '' @ m), s2, [op1, op2])
                    | Inr _ \<Rightarrow>
                        (Inr ((if completed todo then ''Uncompleted'' else ''Completed'')
                              @ '': '' @ dq @ title todo @ dq), s2, [op1, op2]))))"

definition delete_todo :: "env \<Rightarrow> json \<Rightarrow> string \<Rightarrow> db \<Rightarrow> outcome" where
  "delete_todo e args userId s =
     (if args = JNull then (Inl TypeError, s, [])
      else if js_prop args ''title'' = Some (JStr ''__completed__'') then
        let op = DeleteCompleted userId;
            (r, s') = store_call e op s
        in (case r of
              Inl m \<Rightarrow> (Inr (''Error: '' @ m), s', [op])
            | Inr _ \<Rightarrow> (Inr ''Deleted all completed tasks.'', s', [op]))
      else
        let op1 = SelectLike userId (''%'' @ js_string (js_prop args ''title'') @ ''%'');
            (r1, s1) = store_call e op1 s
        in (case r1 of
              Inl m \<Rightarrow> (Inr (no_match (js_prop args ''title'')), s1, [op1])
            | Inr [] \<Rightarrow> (Inr (no_match (js_prop args ''title'')), s1, [op1])
            | Inr (todo # rest) \<Rightarrow>
                let op2 = DeleteById (todo_id todo);
                    (r2, s2) = store_call e op2 s1
                in (case r2 of
                      Inl m \<Rightarrow> (Inr (''Error: '' @ m), s2, [op1, op2])
                    | Inr _ \<Rightarrow>
                        (Inr (''Deleted: '' @ dq @ title todo @ dq), s2, [op1, op2]))))"

definition update_todo :: "env \<Rightarrow> json \<Rightarrow> string \<Rightarrow> db \<Rightarrow> outcome" where
  "update_todo e args userId s =
     (if args = JNull then (Inl TypeError, s, [])
      else
        let op1 = SelectLike userId (''%'' @ js_string (js_prop args ''old_title'') @ ''%'');
            (r1, s1) = store_call e op1 s
        in (case r1 of
              Inl m \<Rightarrow> (Inr (no_match (js_prop args ''old_title'')), s1, [op1])
            | Inr [] \<Rightarrow> (Inr (no_match (js_prop args ''old_title'')), s1, [op1])
            | Inr (todo # rest) \<Rightarrow>
                let op2 = UpdateTitle (todo_id todo) (js_prop args ''new_title'');
                    (r2, s2) = store_call e op2 s1
                in (case r2 of
                      Inl m \<Rightarrow> (Inr (''Error: '' @ m), s2, [op1, op2])
                    | Inr _ \<Rightarrow>
                        (Inr (''Updated '' @ dq @ title todo @ dq @ '' '' @ arrow @ '' '' @ dq
                              @ js_string (js_prop args ''new_title'') @ dq), s2, [op1, op2]))))"

definition executeTool :: "env \<Rightarrow> string \<Rightarrow> json \<Rightarrow> string \<Rightarrow> db \<Rightarrow> outcome" where
  "executeTool e name args userId s =
     (if name = ''add_todo'' then add_todo e args userId s
      else if name = ''list_todos'' then list_todos e args userId s
      else if name = ''toggle_todo'' then toggle_todo e args userId s
      else if name = ''delete_todo'' then delete_todo e args userId s
      else if name = ''update_todo'' then update_todo e args userId s
      else (Inr (''Unknown tool: '' @ name), s, []))"

section \<open>Whose rows a request touches\<close>

text \<open>\<open>restrict u s\<close> is the table with the rows of user \<open>u\<close> only.\<close>

definition restrict :: "string \<Rightarrow> db \<Rightarrow> db" where
  "restrict u s = s\<lparr>rows := filter (\<lambda>t. user_id t = u) (rows s)\<rparr>"

text \<open>
  What a request says about the rows it is for. \<open>user_filter\<close> is the user the request
  names, in \<open>.eq("user_id", ...)\<close> or in the column \<open>user_id\<close> of the row it inserts;
  \<open>id_filter\<close> is the id of \<open>.eq("id", ...)\<close>. The updates and the delete by id name no
  user: the store applies them to the row with that id, whoever owns it.
\<close>

fun user_filter :: "store_op \<Rightarrow> string option" where
  "user_filter (Insert u t d) = Some u"
| "user_filter (SelectAll u f) = Some u"
| "user_filter (SelectLike u p) = Some u"
| "user_filter (DeleteCompleted u) = Some u"
| "user_filter (UpdateCompleted i b) = None"
| "user_filter (UpdateTitle i v) = None"
| "user_filter (DeleteById i) = None"

fun id_filter :: "store_op \<Rightarrow> nat option" where
  "id_filter (UpdateCompleted i b) = Some i"
| "id_filter (UpdateTitle i v) = Some i"
| "id_filter (DeleteById i) = Some i"
| "id_filter op = None"

text \<open>
  \<open>confined s u op\<close>: on the table \<open>s\<close>, the request \<open>op\<close> can reach rows of \<open>u\<close> only.
  For a request that names a user this says that the user is \<open>u\<close>. For a request by id
  it is a fact about the table and not about the request: a row of \<open>u\<close> has that id and no
  row of anybody else has it.
\<close>

fun confined :: "db \<Rightarrow> string \<Rightarrow> store_op \<Rightarrow> bool" where
  "confined s u (Insert u' t d) = (u' = u)"
| "confined s u (SelectAll u' f) = (u' = u)"
| "confined s u (SelectLike u' p) = (u' = u)"
| "confined s u (DeleteCompleted u') = (u' = u)"
| "confined s u (UpdateCompleted i b) =
     (list_ex (\<lambda>t. todo_id t = i \<and> user_id t = u) (rows s)
      \<and> filter (\<lambda>t. todo_id t = i \<and> user_id t \<noteq> u) (rows s) = [])"
| "confined s u (UpdateTitle i v) =
     (list_ex (\<lambda>t. todo_id t = i \<and> user_id t = u) (rows s)
      \<and> filter (\<lambda>t. todo_id t = i \<and> user_id t \<noteq> u) (rows s) = [])"
| "confined s u (DeleteById i) =
     (list_ex (\<lambda>t. todo_id t = i \<and> user_id t = u) (rows s)
      \<and> filter (\<lambda>t. todo_id t = i \<and> user_id t \<noteq> u) (rows s) = [])"


text \<open>
  The primary key: the ids on the table are distinct, and the store has not yet handed out
  the ids from \<open>next_id\<close> on.
\<close>

definition keyed :: "db \<Rightarrow> bool" where
  "keyed s = (distinct (map todo_id (rows s)) \<and> list_all (\<lambda>r. todo_id r < next_id s) (rows s))"


text \<open>The table after a list of requests, sent one after the other.\<close>

fun replay :: "env \<Rightarrow> store_op list \<Rightarrow> db \<Rightarrow> db" where
  "replay e [] s = s"
| "replay e (op # ops) s = replay e ops (snd (store_call e op s))"


text \<open>A title without the characters that \<open>ILIKE\<close> reads as wildcards or as the escape.\<close>

definition plain :: "string \<Rightarrow> bool" where
  "plain t = list_all (\<lambda>c. c \<noteq> CHR ''%'' \<and> c \<noteq> CHR ''_'' \<and> c \<noteq> CHR 0x5C) t"


text \<open>
  The rows a lookup \<open>.eq("user_id", u).ilike("title", `%${t}%`)\<close> matches, in scan order.
\<close>

definition candidates :: "string \<Rightarrow> string \<Rightarrow> db \<Rightarrow> todo list" where
  "candidates u t s = filter (\<lambda>r. user_id r = u \<and> ilike (''%'' @ t @ ''%'') (title r)) (rows s)"


section \<open>Parsing JSON\<close>

definition is_ws :: "char \<Rightarrow> bool" where
  "is_ws c = (c = CHR 0x20 \<or> c = CHR 0x09 \<or> c = CHR 0x0A \<or> c = CHR 0x0D)"

definition skip_ws :: "string \<Rightarrow> string" where
  "skip_ws s = dropWhile is_ws s"

definition is_digit :: "char \<Rightarrow> bool" where
  "is_digit c = (48 \<le> (of_char c :: nat) \<and> (of_char c :: nat) \<le> 57)"

definition hex_value :: "char \<Rightarrow> nat option" where
  "hex_value c =
     (let n = (of_char c :: nat)
      in if 48 \<le> n \<and> n \<le> 57 then Some (n - 48)
         else if 97 \<le> n \<and> n \<le> 102 then Some (n - 87)
         else if 65 \<le> n \<and> n \<le> 70 then Some (n - 55)
         else None)"

definition hex4 :: "char \<Rightarrow> char \<Rightarrow> char \<Rightarrow> char \<Rightarrow> nat option" where
  "hex4 a b c d =
     (case (hex_value a, hex_value b, hex_value c, hex_value d) of
        (Some w, Some x, Some y, Some z) \<Rightarrow> Some (4096 * w + 256 * x + 16 * y + z)
      | _ \<Rightarrow> None)"

definition utf8 :: "nat \<Rightarrow> string" where
  "utf8 n =
     (if n < 128 then [char_of n]
      else if n < 2048 then [char_of (192 + n div 64), char_of (128 + n mod 64)]
      else if n < 65536 then
        [char_of (224 + n div 4096), char_of (128 + (n div 64) mod 64), char_of (128 + n mod 64)]
      else
        [char_of (240 + n div 262144), char_of (128 + (n div 4096) mod 64),
         char_of (128 + (n div 64) mod 64), char_of (128 + n mod 64)])"

definition unescape :: "char \<Rightarrow> char option" where
  "unescape c =
     (if c = CHR 0x22 then Some (CHR 0x22)
      else if c = CHR 0x5C then Some (CHR 0x5C)
      else if c = CHR ''/'' then Some (CHR ''/'')
      else if c = CHR ''b'' then Some (CHR 0x08)
      else if c = CHR ''f'' then Some (CHR 0x0C)
      else if c = CHR ''n'' then Some (CHR 0x0A)
      else if c = CHR ''r'' then Some (CHR 0x0D)
      else if c = CHR ''t'' then Some (CHR 0x09)
      else None)"

definition low_surrogate :: "string \<Rightarrow> nat option" where
  "low_surrogate s =
     (case s of
        b # u # h1 # h2 # h3 # h4 # r \<Rightarrow>
          if b = CHR 0x5C \<and> u = CHR ''u'' then
            (case hex4 h1 h2 h3 h4 of
               Some n \<Rightarrow> if 56320 \<le> n \<and> n \<le> 57343 then Some n else None
             | None \<Rightarrow> None)
          else None
      | _ \<Rightarrow> None)"

fun add_char :: "string \<Rightarrow> (string \<times> string) option \<Rightarrow> (string \<times> string) option" where
  "add_char cs None = None"
| "add_char cs (Some (t, r)) = Some (cs @ t, r)"

fun parse_chars :: "string \<Rightarrow> (string \<times> string) option" where
  "parse_chars [] = None"
| "parse_chars (c # cs) =
     (if c = CHR 0x22 then Some ([], cs)
      else if c = CHR 0x5C then
        (case cs of
           [] \<Rightarrow> None
         | e # r \<Rightarrow>
             if e = CHR ''u'' then
               (case r of
                  h1 # h2 # h3 # h4 # r1 \<Rightarrow>
                    (case hex4 h1 h2 h3 h4 of
                       None \<Rightarrow> None
                     | Some hi \<Rightarrow>
                         if 55296 \<le> hi \<and> hi \<le> 56319 then
                           (case low_surrogate r1 of
                              Some lo \<Rightarrow>
                                add_char (utf8 (65536 + 1024 * (hi - 55296) + (lo - 56320)))
                                  (parse_chars (drop 6 r1))
                            | None \<Rightarrow> add_char (utf8 hi) (parse_chars r1))
                         else add_char (utf8 hi) (parse_chars r1))
                | _ \<Rightarrow> None)
             else
               (case unescape e of
                  None \<Rightarrow> None
                | Some ch \<Rightarrow> add_char [ch] (parse_chars r)))
      else if (of_char c :: nat) < 32 then None
      else add_char [c] (parse_chars cs))"


text \<open>The longest prefix that is a JSON number, with the rest of the text.\<close>

definition digits :: "string \<Rightarrow> string" where
  "digits s = takeWhile is_digit s"

definition lex_int :: "string \<Rightarrow> (string \<times> string) option" where
  "lex_int s =
     (case s of
        [] \<Rightarrow> None
      | c # r \<Rightarrow>
          if c = CHR ''0'' then Some ([c], r)
          else if is_digit c then Some (c # digits r, dropWhile is_digit r)
          else None)"

definition lex_frac :: "string \<Rightarrow> (string \<times> string) option" where
  "lex_frac s =
     (case s of
        [] \<Rightarrow> Some ([], s)
      | c # r \<Rightarrow>
          if c = CHR ''.'' then
            (if digits r = [] then None else Some (c # digits r, dropWhile is_digit r))
          else Some ([], s))"

definition lex_exp :: "string \<Rightarrow> (string \<times> string) option" where
  "lex_exp s =
     (case s of
        [] \<Rightarrow> Some ([], s)
      | c # r \<Rightarrow>
          if c = CHR ''e'' \<or> c = CHR ''E'' then
            (case r of
               [] \<Rightarrow> None
             | g # r' \<Rightarrow>
                 if g = CHR ''+'' \<or> g = CHR ''-'' then
                   (if digits r' = [] then None
                    else Some (c # g # digits r', dropWhile is_digit r'))
                 else if digits r = [] then None
                 else Some (c # digits r, dropWhile is_digit r))
          else Some ([], s))"

definition lex_number :: "string \<Rightarrow> (string \<times> string) option" where
  "lex_number s =
     (let sign = (if take 1 s = ''-'' then ''-'' else []);
          s0 = (if take 1 s = ''-'' then drop 1 s else s)
      in case lex_int s0 of
           None \<Rightarrow> None
         | Some (i, s1) \<Rightarrow>
             (case lex_frac s1 of
                None \<Rightarrow> None
              | Some (f, s2) \<Rightarrow>
                  (case lex_exp s2 of
                     None \<Rightarrow> None
                   | Some (x, s3) \<Rightarrow> Some (sign @ i @ f @ x, s3))))"

text \<open>
  The parser of JSON values. The first argument bounds the recursion; \<open>JSON_parse\<close>
  gives it twice the length of the text and one more, which no text exhausts: a value
  hands its members a shorter text, and a member list hands its first value the same
  text and the remaining members a text shorter by two characters or more.
\<close>

fun parse_value :: "nat \<Rightarrow> string \<Rightarrow> (json \<times> string) option"
  and parse_elements :: "nat \<Rightarrow> string \<Rightarrow> (json list \<times> string) option"
  and parse_members :: "nat \<Rightarrow> string \<Rightarrow> ((string \<times> json) list \<times> string) option"
where
  "parse_value 0 s = None"
| "parse_value (Suc n) s =
     (case skip_ws s of
        [] \<Rightarrow> None
      | c # cs \<Rightarrow>
          if c = CHR ''{'' then
            (if take 1 (skip_ws cs) = ''}'' then Some (JObj [], drop 1 (skip_ws cs))
             else (case parse_members n cs of
                     None \<Rightarrow> None
                   | Some (kvs, r) \<Rightarrow> Some (JObj kvs, r)))
          else if c = CHR ''['' then
            (if take 1 (skip_ws cs) = '']'' then Some (JArr [], drop 1 (skip_ws cs))
             else (case parse_elements n cs of
                     None \<Rightarrow> None
                   | Some (vs, r) \<Rightarrow> Some (JArr vs, r)))
          else if c = CHR 0x22 then
            (case parse_chars cs of
               None \<Rightarrow> None
             | Some (t, r) \<Rightarrow> Some (JStr t, r))
          else if take 4 (c # cs) = ''true'' then Some (JBool True, drop 3 cs)
          else if take 5 (c # cs) = ''false'' then Some (JBool False, drop 4 cs)
          else if take 4 (c # cs) = ''null'' then Some (JNull, drop 3 cs)
          else (case lex_number (c # cs) of
                  None \<Rightarrow> None
                | Some (n, r) \<Rightarrow> Some (JNum n, r)))"
| "parse_elements 0 s = None"
| "parse_elements (Suc n) s =
     (case parse_value n s of
        None \<Rightarrow> None
      | Some (v, r) \<Rightarrow>
          if take 1 (skip_ws r) = '','' then
            (case parse_elements n (drop 1 (skip_ws r)) of
               None \<Rightarrow> None
             | Some (vs, r') \<Rightarrow> Some (v # vs, r'))
          else if take 1 (skip_ws r) = '']'' then Some ([v], drop 1 (skip_ws r))
          else None)"
| "parse_members 0 s = None"
| "parse_members (Suc n) s =
     (if take 1 (skip_ws s) = [CHR 0x22] then
        (case parse_chars (drop 1 (skip_ws s)) of
           None \<Rightarrow> None
         | Some (k, r) \<Rightarrow>
             if take 1 (skip_ws r) = '':'' then
               (case parse_value n (drop 1 (skip_ws r)) of
                  None \<Rightarrow> None
                | Some (v, r') \<Rightarrow>
                    if take 1 (skip_ws r') = '','' then
                      (case parse_members n (drop 1 (skip_ws r')) of
                         None \<Rightarrow> None
                       | Some (kvs, r'') \<Rightarrow> Some ((k, v) # kvs, r''))
                    else if take 1 (skip_ws r') = ''}'' then Some ([(k, v)], drop 1 (skip_ws r'))
                    else None)
             else None)
      else None)"

text \<open>\<open>JSON.parse\<close>: one value, white space around it, nothing else; \<^term>\<open>None\<close> is the SyntaxError.\<close>

definition JSON_parse :: "string \<Rightarrow> json option" where
  "JSON_parse s =
     (case parse_value (2 * length s + 1) s of
        None \<Rightarrow> None
      | Some (v, r) \<Rightarrow> if skip_ws r = [] then Some v else None)"

section \<open>The request handler\<close>

datatype log_entry =
    LogExecuting string json
  | LogGatewayError nat string
  | LogFollowUpError nat string
  | LogCaught exn

text \<open>
  What a request leaves behind: the table, the requests sent to the model endpoint, the
  requests sent to the store, and the console, each in order.
\<close>

record world =
  store :: db
  model_calls :: "completion_request list"
  store_ops :: "store_op list"
  console :: "log_entry list"

text \<open>
  The body of a response: none, a JSON text, \<open>{"error": e.message}\<close> for a caught
  exception (the message is the platform's), or the chunks enqueued on the stream.
\<close>

datatype body = NoBody | JsonText string | CaughtBody exn | EventStream "string list"

definition error_json :: "string \<Rightarrow> body" where
  "error_json m = JsonText (stringify (JObj [(''error'', JStr m)]))"

record response =
  http_status :: nat
  content_type :: "string option"
  http_body :: body

record request =
  http_method :: string
  request_body :: string

definition MAX_ITERATIONS :: nat where
  "MAX_ITERATIONS = 5"

definition nl :: string where
  "nl = [CHR 0x0A]"

definition systemPrompt :: "string \<Rightarrow> string" where
  "systemPrompt t =
     ''You are a friendly and concise AI task manager called todo.ai. ''
     @ ''You help users manage their tasks through conversation.'' @ nl
     @ ''Current date/time: '' @ t @ ''.'' @ nl @ nl
     @ ''When users ask to add, list, complete, delete, or update tasks, use the available tools.''
     @ nl
     @ ''When a user mentions a deadline or due date, parse it into ISO 8601 and pass it as due_at.''
     @ nl
     @ ''When listing tasks, format them nicely and mention due dates. Be brief and helpful.'' @ nl
     @ ''If a user'' @ [CHR 0x27] @ ''s request is ambiguous, ask for clarification.'' @ nl
     @ ''Always confirm actions you'' @ [CHR 0x27] @ ''ve taken.''"

definition completion :: "message list \<Rightarrow> completion_request" where
  "completion ms =
     \<lparr>req_model = ''google/gemini-2.5-flash'', req_messages = ms, req_tools = tools,
      req_stream = False\<rparr>"

definition json_response :: "nat \<Rightarrow> body \<Rightarrow> response" where
  "json_response st b =
     \<lparr>http_status = st, content_type = Some ''application/json'', http_body = b\<rparr>"

text \<open>
  The \<open>for\<close> loop over the tool calls of one assistant message: the arguments are parsed,
  the call is logged and executed, and its result is pushed on the conversation. An
  exception leaves the loop.
\<close>

fun run_tool_calls ::
  "env \<Rightarrow> string \<Rightarrow> tool_call list \<Rightarrow> message list \<Rightarrow> world
     \<Rightarrow> exn option \<times> message list \<times> world" where
  "run_tool_calls e userId [] conv w = (None, conv, w)"
| "run_tool_calls e userId (toolCall # tcs) conv w =
     (case JSON_parse (fn_arguments toolCall) of
        None \<Rightarrow> (Some SyntaxError, conv, w)
      | Some fnArgs \<Rightarrow>
          let w1 = w\<lparr>console := console w @ [LogExecuting (fn_name toolCall) fnArgs]\<rparr>;
              (toolResult, s', ops) = executeTool e (fn_name toolCall) fnArgs userId (store w1);
              w2 = w1\<lparr>store := s', store_ops := store_ops w1 @ ops\<rparr>
          in (case toolResult of
                Inl ex \<Rightarrow> (Some ex, conv, w2)
              | Inr text \<Rightarrow>
                  run_tool_calls e userId tcs (conv @ [ToolResult (call_id toolCall) text]) w2))"

text \<open>
  The \<open>while\<close> loop. The result is the exception thrown inside it, if any, and the
  variables \<open>iterations\<close>, \<open>conversationMessages\<close> and \<open>assistantMessage\<close> when it ends.
\<close>

function tool_loop ::
  "env \<Rightarrow> string \<Rightarrow> nat \<Rightarrow> message list \<Rightarrow> assistant_msg \<Rightarrow> world
     \<Rightarrow> exn option \<times> nat \<times> message list \<times> assistant_msg \<times> world" where
  "tool_loop e userId iterations conv assistantMessage w =
     (case tool_calls assistantMessage of
        None \<Rightarrow> (None, iterations, conv, assistantMessage, w)
      | Some tcs \<Rightarrow>
          if \<not> iterations < MAX_ITERATIONS then (None, iterations, conv, assistantMessage, w)
          else
            (case run_tool_calls e userId tcs (conv @ [Assistant assistantMessage]) w of
               (Some ex, conv', w') \<Rightarrow> (Some ex, Suc iterations, conv', assistantMessage, w')
             | (None, conv', w') \<Rightarrow>
                 (case completions e (completion conv') of
                    Inl ex \<Rightarrow>
                      (Some ex, Suc iterations, conv', assistantMessage,
                       w'\<lparr>model_calls := model_calls w' @ [completion conv']\<rparr>)
                  | Inr response \<Rightarrow>
                      if \<not> ok response then
                        (None, Suc iterations, conv', assistantMessage,
                         w'\<lparr>model_calls := model_calls w' @ [completion conv'],
                            console := console w'
                              @ [LogFollowUpError (resp_status response) (resp_text response)]\<rparr>)
                      else
                        (case resp_message response of
                           Inl ex \<Rightarrow>
                             (Some ex, Suc iterations, conv', assistantMessage,
                              w'\<lparr>model_calls := model_calls w' @ [completion conv']\<rparr>)
                         | Inr m \<Rightarrow>
                             tool_loop e userId (Suc iterations) conv' m
                               (w'\<lparr>model_calls := model_calls w' @ [completion conv']\<rparr>)))))"
  by pat_completeness auto
termination
  by (relation "measure (\<lambda>(e, userId, iterations, conv, m, w). MAX_ITERATIONS - iterations)") auto

declare tool_loop.simps [simp del]

definition finalContent :: "assistant_msg \<Rightarrow> string" where
  "finalContent m = (case content m of None \<Rightarrow> ''Done!'' | Some t \<Rightarrow> if t = [] then ''Done!'' else t)"

definition delta :: "string \<Rightarrow> json" where
  "delta t = JObj [(''choices'', JArr [JObj [(''delta'', JObj [(''content'', JStr t)])]])]"

text \<open>The two chunks the stream enqueues.\<close>

definition stream :: "string \<Rightarrow> string list" where
  "stream t = [''data: '' @ stringify (delta t) @ nl @ nl, ''data: [DONE]'' @ nl @ nl]"

definition stream_response :: "string \<Rightarrow> response" where
  "stream_response t =
     \<lparr>http_status = 200, content_type = Some ''text/event-stream'',
      http_body = EventStream (stream t)\<rparr>"

text \<open>The conversation the handler starts with, for the array \<open>messages\<close> of the body.\<close>

definition allMessages :: "env \<Rightarrow> json list \<Rightarrow> message list" where
  "allMessages e ms =
     System (systemPrompt (now e)) # map (\<lambda>m. Client (js_prop m ''role'') (js_prop m ''content'')) ms"

text \<open>
  The handler from its first call of the model on: the call and its error branches, the
  loop, and the stream of the settled content.
\<close>

definition converse :: "env \<Rightarrow> string \<Rightarrow> json list \<Rightarrow> world \<Rightarrow> (exn + response) \<times> world" where
  "converse e userId ms w =
     (let w1 = w\<lparr>model_calls := model_calls w @ [completion (allMessages e ms)]\<rparr>
      in (case completions e (completion (allMessages e ms)) of
            Inl ex \<Rightarrow> (Inl ex, w1)
          | Inr response \<Rightarrow>
              if \<not> ok response then
                (if resp_status response = 429 then
                   (Inr (json_response 429 (error_json ''Rate limited'')), w1)
                 else if resp_status response = 402 then
                   (Inr (json_response 402 (error_json ''Payment required'')), w1)
                 else
                   (Inr (json_response 500 (error_json ''AI gateway error'')),
                    w1\<lparr>console := console w1
                         @ [LogGatewayError (resp_status response) (resp_text response)]\<rparr>))
              else
                (case resp_message response of
                   Inl ex \<Rightarrow> (Inl ex, w1)
                 | Inr m \<Rightarrow>
                     (case tool_loop e userId 0 (allMessages e ms) m w1 of
                        (Some ex, i, conv, m', w') \<Rightarrow> (Inl ex, w')
                      | (None, i, conv, m', w') \<Rightarrow>
                          (Inr (stream_response (finalContent m')), w')))))"

text \<open>
  The body of the \<open>try\<close> block. \<open>req.json()\<close> throws on a body that is not JSON,
  destructuring \<open>null\<close> throws, \<open>messages.map\<close> throws unless \<open>messages\<close> is an array, and
  \<open>m.role\<close> throws on an element that is \<open>null\<close>.
\<close>

definition handle :: "env \<Rightarrow> request \<Rightarrow> world \<Rightarrow> (exn + response) \<times> world" where
  "handle e req w =
     (case JSON_parse (request_body req) of
        None \<Rightarrow> (Inl SyntaxError, w)
      | Some b \<Rightarrow>
          if b = JNull then (Inl TypeError, w)
          else
            let messages = js_prop b ''messages''; userId = js_prop b ''userId''
            in if \<not> truthy userId
               then (Inr (json_response 400 (error_json ''userId is required'')), w)
               else
                 (case messages of
                    Some (JArr ms) \<Rightarrow>
                      if list_ex (\<lambda>m. m = JNull) ms then (Inl TypeError, w)
                      else converse e (js_string userId) ms w
                  | _ \<Rightarrow> (Inl TypeError, w)))"

definition serve :: "env \<Rightarrow> request \<Rightarrow> world \<Rightarrow> response \<times> world" where
  "serve e req w =
     (if http_method req = ''OPTIONS''
      then (\<lparr>http_status = 200, content_type = None, http_body = NoBody\<rparr>, w)
      else
        (case handle e req w of
           (Inr r, w') \<Rightarrow> (r, w')
         | (Inl ex, w') \<Rightarrow>
             (json_response 500 (CaughtBody ex), w'\<lparr>console := console w' @ [LogCaught ex]\<rparr>)))"











section \<open>The client's stream consumer\<close>

text \<open>
  White space as \<open>String.prototype.trim\<close> strips it, on UTF-8 text: the six ASCII
  characters, and the encodings of U+00A0, U+1680, U+2000 to U+200A, U+2028, U+2029,
  U+202F, U+205F, U+3000 and U+FEFF. \<open>space_prefix s\<close> is the length of the white space
  character that \<open>s\<close> starts with, 0 when it starts with none.
\<close>

definition ascii_space :: "char \<Rightarrow> bool" where
  "ascii_space c =
     (c = CHR 0x09 \<or> c = CHR 0x0A \<or> c = CHR 0x0B \<or> c = CHR 0x0C \<or> c = CHR 0x0D \<or> c = CHR 0x20)"

definition wide_spaces :: "string list" where
  "wide_spaces =
     [[CHR 0xC2, CHR 0xA0], [CHR 0xE1, CHR 0x9A, CHR 0x80], [CHR 0xE2, CHR 0x80, CHR 0x80],
      [CHR 0xE2, CHR 0x80, CHR 0x81], [CHR 0xE2, CHR 0x80, CHR 0x82],
      [CHR 0xE2, CHR 0x80, CHR 0x83], [CHR 0xE2, CHR 0x80, CHR 0x84],
      [CHR 0xE2, CHR 0x80, CHR 0x85], [CHR 0xE2, CHR 0x80, CHR 0x86],
      [CHR 0xE2, CHR 0x80, CHR 0x87], [CHR 0xE2, CHR 0x80, CHR 0x88],
      [CHR 0xE2, CHR 0x80, CHR 0x89], [CHR 0xE2, CHR 0x80, CHR 0x8A],
      [CHR 0xE2, CHR 0x80, CHR 0xA8], [CHR 0xE2, CHR 0x80, CHR 0xA9],
      [CHR 0xE2, CHR 0x80, CHR 0xAF], [CHR 0xE2, CHR 0x81, CHR 0x9F],
      [CHR 0xE3, CHR 0x80, CHR 0x80], [CHR 0xEF, CHR 0xBB, CHR 0xBF]]"

definition space_prefix :: "string \<Rightarrow> nat" where
  "space_prefix s =
     (case s of
        [] \<Rightarrow> 0
      | c # cs \<Rightarrow>
          if ascii_space c then 1
          else if list_ex (\<lambda>w. take (length w) s = w) wide_spaces
          then (if c = CHR 0xC2 then 2 else 3)
          else 0)"

definition space_suffix :: "string \<Rightarrow> nat" where
  "space_suffix s =
     (if s = [] then 0
      else if ascii_space (last s) then 1
      else if list_ex (\<lambda>w. drop (length s - length w) s = w \<and> length w \<le> length s) wide_spaces
      then (if drop (length s - 2) s = [CHR 0xC2, CHR 0xA0] then 2 else 3)
      else 0)"

function trimStart :: "string \<Rightarrow> string" where
  "trimStart s = (if space_prefix s = 0 then s else trimStart (drop (space_prefix s) s))"
  by pat_completeness auto
termination
  by (relation "measure length") (auto simp: space_prefix_def split: list.splits)

function trimEnd :: "string \<Rightarrow> string" where
  "trimEnd s = (if space_suffix s = 0 then s else trimEnd (take (length s - space_suffix s) s))"
  by pat_completeness auto
termination
  by (relation "measure length") (auto simp: space_suffix_def split: if_splits)

declare trimStart.simps [simp del] trimEnd.simps [simp del]

definition trim :: "string \<Rightarrow> string" where
  "trim s = trimEnd (trimStart s)"


text \<open>The transcript the chat window shows: \<open>Msg = { role, content }\<close>.\<close>

datatype role = User | AssistantRole

record msg =
  msg_role :: role
  msg_content :: string

text \<open>
  The state the reading loop works on: the React state \<open>messages\<close> and \<open>todoRefresh\<close>,
  and the local variable \<open>assistantSoFar\<close>.
\<close>

record ui =
  messages :: "msg list"
  todoRefresh :: nat
  assistantSoFar :: string

definition upsertAssistant :: "string \<Rightarrow> ui \<Rightarrow> ui" where
  "upsertAssistant chunk u =
     (let sofar = assistantSoFar u @ chunk; prev = messages u
      in u\<lparr>assistantSoFar := sofar,
           messages :=
             (if prev \<noteq> [] \<and> msg_role (last prev) = AssistantRole
              then prev[length prev - 1 := (last prev)\<lparr>msg_content := sofar\<rparr>]
              else prev @ [\<lparr>msg_role = AssistantRole, msg_content = sofar\<rparr>])\<rparr>)"

text \<open>Optional chaining \<open>x?.p\<close>, and the element \<open>x[0]\<close> of a value that is not nullish.\<close>

fun chain :: "json option \<Rightarrow> (json \<Rightarrow> json option) \<Rightarrow> json option" where
  "chain None f = None"
| "chain (Some v) f = (if v = JNull then None else f v)"

fun index0 :: "json \<Rightarrow> json option" where
  "index0 (JArr xs) = (case xs of [] \<Rightarrow> None | x # r \<Rightarrow> Some x)"
| "index0 (JStr s) = (case s of [] \<Rightarrow> None | c # r \<Rightarrow> Some (JStr [c]))"
| "index0 (JObj kvs) = map_of (rev kvs) ''0''"
| "index0 v = None"

definition delta_of :: "json \<Rightarrow> json option" where
  "delta_of parsed = chain (chain (js_prop parsed ''choices'') index0) (\<lambda>c. js_prop c ''delta'')"

text \<open>
  The \<open>try\<close> block of the reading loop on a payload: \<^term>\<open>None\<close> when it throws, which a
  payload that is not JSON and the payload \<open>null\<close> do, before any effect.
\<close>

definition apply_payload :: "bool \<Rightarrow> string \<Rightarrow> ui \<Rightarrow> ui option" where
  "apply_payload refresh jsonStr u =
     (case JSON_parse jsonStr of
        None \<Rightarrow> None
      | Some parsed \<Rightarrow>
          if parsed = JNull then None
          else
            let content = chain (delta_of parsed) (\<lambda>d. js_prop d ''content'');
                toolCalls = chain (delta_of parsed) (\<lambda>d. js_prop d ''tool_calls'');
                u1 = (if truthy content then upsertAssistant (js_string content) u else u)
            in Some (if refresh \<and> truthy toolCalls then u1\<lparr>todoRefresh := Suc (todoRefresh u1)\<rparr>
                     else u1))"

text \<open>\<open>textBuffer.indexOf("\n")\<close> with the two slices around it.\<close>

fun split_line :: "string \<Rightarrow> (string \<times> string) option" where
  "split_line [] = None"
| "split_line (c # cs) =
     (if c = CHR 0x0A then Some ([], cs)
      else (case split_line cs of None \<Rightarrow> None | Some (l, r) \<Rightarrow> Some (c # l, r)))"

definition strip_cr :: "string \<Rightarrow> string" where
  "strip_cr line = (if line \<noteq> [] \<and> last line = CHR 0x0D then butlast line else line)"

lemma split_line_shorter: "split_line s = Some (l, r) \<Longrightarrow> length r < length s"
  by (induction s arbitrary: l) (auto split: if_splits option.splits)

text \<open>
  The inner \<open>while\<close> loop over the complete lines of the buffer. It returns the buffer and
  the state when it ends: at a buffer without a line feed, at the payload \<open>[DONE]\<close>, or
  at a payload that throws, which is put back in front of the buffer.
\<close>

function process_lines :: "string \<Rightarrow> ui \<Rightarrow> string \<times> ui" where
  "process_lines textBuffer u =
     (case split_line textBuffer of
        None \<Rightarrow> (textBuffer, u)
      | Some (l, rest) \<Rightarrow>
          let line = strip_cr l
          in if take 1 line = '':'' \<or> trim line = [] then process_lines rest u
             else if take 6 line \<noteq> ''data: '' then process_lines rest u
             else if trim (drop 6 line) = ''[DONE]'' then (rest, u)
             else (case apply_payload True (trim (drop 6 line)) u of
                     None \<Rightarrow> (line @ [CHR 0x0A] @ rest, u)
                   | Some u' \<Rightarrow> process_lines rest u'))"
  by pat_completeness auto
termination
  by (relation "measure (\<lambda>(b, u). length b)") (auto dest: split_line_shorter)

declare process_lines.simps [simp del]

text \<open>
  The outer loop: one pass for each chunk the reader delivers, until it is done. A chunk
  is the text \<open>decoder.decode(value, { stream: true })\<close> returns for it: the decoder
  keeps the bytes of an incomplete character for the next chunk, so the chunks of text are
  the same text cut at other places.
\<close>

fun read_chunks :: "string list \<Rightarrow> string \<Rightarrow> ui \<Rightarrow> string \<times> ui" where
  "read_chunks [] textBuffer u = (textBuffer, u)"
| "read_chunks (chunk # chunks) textBuffer u =
     (case process_lines (textBuffer @ chunk) u of (b, u') \<Rightarrow> read_chunks chunks b u')"

text \<open>\<open>textBuffer.split("\n")\<close> and the loop over what is left in the buffer at the end.\<close>

fun split_nl :: "string \<Rightarrow> string list" where
  "split_nl [] = [[]]"
| "split_nl (c # cs) =
     (if c = CHR 0x0A then [] # split_nl cs
      else (case split_nl cs of [] \<Rightarrow> [[c]] | l # ls \<Rightarrow> (c # l) # ls))"

definition flush_line :: "string \<Rightarrow> ui \<Rightarrow> ui" where
  "flush_line raw0 u =
     (if raw0 = [] then u
      else
        let raw = strip_cr raw0
        in if take 1 raw = '':'' \<or> trim raw = [] then u
           else if take 6 raw \<noteq> ''data: '' then u
           else if trim (drop 6 raw) = ''[DONE]'' then u
           else (case apply_payload False (trim (drop 6 raw)) u of None \<Rightarrow> u | Some u' \<Rightarrow> u'))"

definition flush :: "string \<Rightarrow> ui \<Rightarrow> ui" where
  "flush textBuffer u =
     (if trim textBuffer = [] then u else fold flush_line (split_nl textBuffer) u)"

text \<open>
  What \<open>send\<close> gets from \<open>fetch\<close>: an exception, or a status with the chunks of the body
  (\<^term>\<open>None\<close> for a response without a body).
\<close>

datatype reply = FetchFailed | Reply nat "string list option"

text \<open>
  The page: the visible transcript, the counter that reloads the task panel, the rows
  inserted into \<open>chat_messages\<close>, the toasts shown and the texts read aloud.
\<close>

record page =
  transcript :: "msg list"
  refresh :: nat
  chat_messages :: "msg list"
  toasts :: "string list"
  spoken :: "string list"

text \<open>\<open>send\<close> for a signed-in user (for no user it returns at once).\<close>

definition send :: "bool \<Rightarrow> string \<Rightarrow> reply \<Rightarrow> page \<Rightarrow> page" where
  "send signed_in input r p =
     (if \<not> signed_in then p
      else
        let userMsg = \<lparr>msg_role = User, msg_content = input\<rparr>;
            p1 = p\<lparr>transcript := transcript p @ [userMsg],
                   chat_messages := chat_messages p @ [userMsg]\<rparr>
        in (case r of
              FetchFailed \<Rightarrow> p1\<lparr>toasts := toasts p1 @ [''Error'']\<rparr>
            | Reply st body \<Rightarrow>
                if st = 429 then p1\<lparr>toasts := toasts p1 @ [''Rate limited'']\<rparr>
                else if st = 402 then p1\<lparr>toasts := toasts p1 @ [''Usage limit'']\<rparr>
                else
                  (case body of
                     None \<Rightarrow> p1\<lparr>toasts := toasts p1 @ [''Error'']\<rparr>
                   | Some chunks \<Rightarrow>
                       if \<not> (200 \<le> st \<and> st \<le> 299) then p1\<lparr>toasts := toasts p1 @ [''Error'']\<rparr>
                       else
                         (case read_chunks chunks []
                                 \<lparr>messages = transcript p1, todoRefresh = refresh p1,
                                  assistantSoFar = []\<rparr> of
                            (b, u) \<Rightarrow>
                              let u' = flush b u;
                                  p2 = p1\<lparr>transcript := messages u', refresh := todoRefresh u'\<rparr>
                              in if assistantSoFar u' \<noteq> [] then
                                   p2\<lparr>spoken := spoken p2 @ [assistantSoFar u'],
                                      chat_messages := chat_messages p2
                                        @ [\<lparr>msg_role = AssistantRole,
                                            msg_content = assistantSoFar u'\<rparr>],
                                      refresh := Suc (refresh p2)\<rparr>
                                 else p2))))"

definition done_text :: string where
  "done_text = ''data: [DONE]'' @ [CHR 0x0A, CHR 0x0A]"


text \<open>
  Where the reading loop stands, with \<open>b\<close> in the buffer and \<open>rem\<close> still to come:
  before the end of the data line, between the data line and its blank line, inside the
  \<open>[DONE]\<close> line, or after it.
\<close>

definition staged :: "string \<Rightarrow> ui \<Rightarrow> string \<Rightarrow> ui \<Rightarrow> string \<Rightarrow> bool" where
  "staged t u0 b u rem =
     ((b @ rem = concat (stream t) \<and> CHR 0x0A \<notin> set b \<and> u = u0)
      \<or> (b = [] \<and> rem = CHR 0x0A # done_text \<and> u = upsertAssistant t u0)
      \<or> (b @ rem = done_text \<and> CHR 0x0A \<notin> set b \<and> u = upsertAssistant t u0)
      \<or> ((b @ rem = [CHR 0x0A] \<or> b @ rem = []) \<and> u = upsertAssistant t u0))"


section \<open>A concrete environment\<close>

text \<open>
  A store that rejects nothing, dates printed as they are stored, and a model that answers
  every request with a plain text.
\<close>

definition env0 :: env where
  "env0 =
     \<lparr>fault = (\<lambda>op. None),
      toLocaleDateString = (\<lambda>d. d),
      completions = (\<lambda>q. Inr \<lparr>resp_status = 200, resp_text = [],
                                resp_message = Inr \<lparr>content = Some ''Hello'', tool_calls = None\<rparr>\<rparr>),
      now = ''2026-02-10T12:00:00.000Z''\<rparr>"

definition db0 :: db where
  "db0 = \<lparr>rows = [], next_id = 0, clock = 0\<rparr>"

definition db1 :: db where
  "db1 =
     \<lparr>rows =
        [\<lparr>todo_id = 0, user_id = ''u1'', title = ''Buy milk'', completed = True,
          due_at = None, created_at = 1, updated_at = 4\<rparr>,
         \<lparr>todo_id = 1, user_id = ''u2'', title = ''Pay rent'', completed = True,
          due_at = None, created_at = 2, updated_at = 5\<rparr>,
         \<lparr>todo_id = 2, user_id = ''u1'', title = ''Call mum'', completed = False,
          due_at = None, created_at = 3, updated_at = 3\<rparr>],
      next_id = 3, clock = 6\<rparr>"


definition db2 :: db where
  "db2 =
     \<lparr>rows =
        [\<lparr>todo_id = 0, user_id = ''u1'', title = ''Buy milk'', completed = False,
          due_at = None, created_at = 1, updated_at = 1\<rparr>,
         \<lparr>todo_id = 1, user_id = ''u1'', title = ''Buy milk tomorrow'', completed = False,
          due_at = None, created_at = 2, updated_at = 2\<rparr>],
      next_id = 2, clock = 3\<rparr>"


text \<open>A table on which the id 2 is the id of a row of \<open>u2\<close>.\<close>

definition db3 :: db where
  "db3 =
     \<lparr>rows =
        [\<lparr>todo_id = 2, user_id = ''u2'', title = ''Walk the dog'', completed = False,
          due_at = None, created_at = 1, updated_at = 1\<rparr>],
      next_id = 3, clock = 2\<rparr>"


definition milk_args :: json where
  "milk_args = JObj [(''title'', JStr ''milk''), (''old_title'', JStr ''milk''),
                     (''new_title'', JStr ''Buy oat milk'')]"


definition env_down :: env where
  "env_down = env0\<lparr>fault := (\<lambda>op. Some ''connection refused'')\<rparr>"


text \<open>Requests and model endpoints for the handler.\<close>

definition w0 :: world where
  "w0 = \<lparr>store = db0, model_calls = [], store_ops = [], console = []\<rparr>"


















text \<open>A page with nothing on it, and the settled answer of the spec's example.\<close>

definition page0 :: page where
  "page0 = \<lparr>transcript = [], refresh = 0, chat_messages = [], toasts = [], spoken = []\<rparr>"

definition added_milk :: assistant_msg where
  "added_milk = \<lparr>content = Some (''Added task: '' @ dq @ ''Buy milk'' @ dq), tool_calls = None\<rparr>"


section \<open>Properties of the tool executor\<close>

text \<open>
  C6. A tool name that is not in the catalog makes \<open>executeTool\<close> return the text
  \<open>Unknown tool: <name>\<close>, for all arguments (null included) and users; the table is
  unchanged and no request is sent to the store.
\<close>

theorem unknown_tool_untouched:
  "name \<notin> set (map tool_name tools) \<Longrightarrow>
     executeTool e name args userId s = (Inr (''Unknown tool: '' @ name), s, [])"
  by (simp add: executeTool_def tools_def)

theorem unknown_tool_untouched_witness:
  "''remind_me'' \<notin> set (map tool_name tools) \<and>
   executeTool env0 ''remind_me'' JNull ''u1'' db0 = (Inr ''Unknown tool: remind_me'', db0, [])"
  using unknown_tool_untouched [of "''remind_me''" env0 JNull "''u1''" db0]
  by (simp add: tools_def)

subsection \<open>The lookup by title\<close>

text \<open>
  For a title without wildcard characters the pattern \<open>%title%\<close> is the substring match
  without regard to the case of ASCII letters.
\<close>

lemma ilike_percent: "ilike (CHR ''%'' # p) s = (\<exists>a b. s = a @ b \<and> ilike p b)"
proof (induction s)
  case Nil
  then show ?case by simp
next
  case (Cons c s)
  have "ilike (CHR ''%'' # p) (c # s) = (ilike p (c # s) \<or> ilike (CHR ''%'' # p) s)" by simp
  also have "\<dots> = (ilike p (c # s) \<or> (\<exists>a b. s = a @ b \<and> ilike p b))" by (simp only: Cons.IH)
  also have "\<dots> = (\<exists>a b. c # s = a @ b \<and> ilike p b)"
  proof
    assume "ilike p (c # s) \<or> (\<exists>a b. s = a @ b \<and> ilike p b)"
    then show "\<exists>a b. c # s = a @ b \<and> ilike p b"
    proof
      assume "ilike p (c # s)"
      then have "c # s = [] @ (c # s) \<and> ilike p (c # s)" by simp
      then show ?thesis by blast
    next
      assume "\<exists>a b. s = a @ b \<and> ilike p b"
      then obtain a b where "s = a @ b" "ilike p b" by blast
      then have "c # s = (c # a) @ b \<and> ilike p b" by simp
      then show ?thesis by blast
    qed
  next
    assume "\<exists>a b. c # s = a @ b \<and> ilike p b"
    then obtain a b where ab: "c # s = a @ b" "ilike p b" by blast
    show "ilike p (c # s) \<or> (\<exists>a b. s = a @ b \<and> ilike p b)"
    proof (cases a)
      case Nil
      with ab show ?thesis by simp
    next
      case (Cons d a')
      with ab have "s = a' @ b" by simp
      with ab(2) show ?thesis by blast
    qed
  qed
  finally show ?case .
qed

lemma ilike_plain:
  "plain t \<Longrightarrow> ilike (t @ p) s = (\<exists>m b. s = m @ b \<and> map lower m = map lower t \<and> ilike p b)"
proof (induction t arbitrary: s)
  case Nil
  then show ?case by simp
next
  case (Cons c t)
  then have c: "c \<noteq> CHR ''%''" "c \<noteq> CHR ''_''" "c \<noteq> CHR 0x5C" and t: "plain t"
    by (simp_all add: plain_def)
  show ?case
  proof (cases s)
    case Nil
    with c show ?thesis by simp
  next
    case (Cons d s')
    have "ilike ((c # t) @ p) (d # s') = (lower d = lower c \<and> ilike (t @ p) s')"
      using c by simp
    also have "\<dots> = (lower d = lower c
        \<and> (\<exists>m b. s' = m @ b \<and> map lower m = map lower t \<and> ilike p b))"
      by (simp only: Cons.IH [OF t])
    also have "\<dots> = (\<exists>m b. d # s' = m @ b \<and> map lower m = map lower (c # t) \<and> ilike p b)"
    proof
      assume "lower d = lower c \<and> (\<exists>m b. s' = m @ b \<and> map lower m = map lower t \<and> ilike p b)"
      then obtain m b where "lower d = lower c" "s' = m @ b" "map lower m = map lower t" "ilike p b"
        by blast
      then have "d # s' = (d # m) @ b \<and> map lower (d # m) = map lower (c # t) \<and> ilike p b"
        by simp
      then show "\<exists>m b. d # s' = m @ b \<and> map lower m = map lower (c # t) \<and> ilike p b" by blast
    next
      assume "\<exists>m b. d # s' = m @ b \<and> map lower m = map lower (c # t) \<and> ilike p b"
      then obtain m b where mb: "d # s' = m @ b" "map lower m = map lower (c # t)" "ilike p b"
        by blast
      from mb(2) obtain d' m' where m: "m = d' # m'" by (cases m) auto
      with mb have "d' = d" "s' = m' @ b" "lower d = lower c" "map lower m' = map lower t"
        by simp_all
      with mb(3) show "lower d = lower c
        \<and> (\<exists>m b. s' = m @ b \<and> map lower m = map lower t \<and> ilike p b)" by blast
    qed
    finally show ?thesis using Cons by simp
  qed
qed

lemma ilike_contains:
  assumes "plain t"
  shows "ilike (''%'' @ t @ ''%'') s = (\<exists>a m b. s = a @ m @ b \<and> map lower m = map lower t)"
proof -
  have any: "\<And>b. ilike ''%'' b"
  proof -
    fix b :: string
    have "b = b @ [] \<and> ilike [] []" by simp
    then show "ilike ''%'' b" unfolding ilike_percent by blast
  qed
  have "ilike (''%'' @ t @ ''%'') s = (\<exists>a x. s = a @ x \<and> ilike (t @ ''%'') x)"
    using ilike_percent [of "t @ ''%''" s] by simp
  also have "\<dots> = (\<exists>a x. s = a @ x \<and> (\<exists>m b. x = m @ b \<and> map lower m = map lower t))"
    by (simp only: ilike_plain [OF assms] any simp_thms)
  also have "\<dots> = (\<exists>a m b. s = a @ m @ b \<and> map lower m = map lower t)" by blast
  finally show ?thesis .
qed

subsection \<open>The primary key and the requests sent\<close>

text \<open>
  The table a call leaves is the one its requests produce, and the primary key holds on
  it when it held before; it holds on the empty table.
\<close>

lemma keyed_db0: "keyed db0"
  by (simp add: keyed_def db0_def)

lemma keyed_distinct: "keyed s \<Longrightarrow> distinct (map todo_id (rows s))"
  by (simp add: keyed_def)

lemma map_keep_ids:
  "(\<And>r. todo_id (f r) = todo_id r) \<Longrightarrow> map todo_id (map (\<lambda>r. if P r then f r else r) xs) = map todo_id xs"
  by (induction xs) auto

lemma store_exec_keyed:
  assumes "keyed s" and "store_exec op s = (r, s')"
  shows "keyed s'"
proof (cases op)
  case (Insert u t d)
  show ?thesis
  proof (cases "t = None \<or> t = Some JNull")
    case True
    with Insert assms show ?thesis by auto
  next
    case False
    then obtain v where v: "t = Some v" "v \<noteq> JNull" by auto
    with Insert assms(2) have s': "rows s' = rows s @ [new_row s u v d]" "next_id s' = Suc (next_id s)"
      by (cases v; auto)+
    have "todo_id (new_row s u v d) = next_id s" by (simp add: new_row_def)
    moreover from assms(1) have "\<forall>r \<in> set (rows s). todo_id r < next_id s"
      by (simp add: keyed_def list_all_iff)
    ultimately show ?thesis using assms(1) s'
      by (auto simp: keyed_def list_all_iff)
  qed
next
  case (SelectAll u f)
  with assms show ?thesis by (auto split: option.splits json.splits)
next
  case (SelectLike u p)
  with assms show ?thesis by auto
next
  case (UpdateCompleted i b)
  with assms(2) have s': "rows s' = map (\<lambda>r. if todo_id r = i
       then r\<lparr>completed := b, updated_at := clock s\<rparr> else r) (rows s)" "next_id s' = next_id s"
    by auto
  have "map todo_id (rows s') = map todo_id (rows s)"
    unfolding s' by (rule map_keep_ids) simp
  then show ?thesis using assms(1) s'(2)
    by (simp add: keyed_def list_all_iff) (metis (mono_tags, lifting) image_iff list.set_map)
next
  case (UpdateTitle i t)
  show ?thesis
  proof (cases "t = None \<or> t = Some JNull")
    case True
    with UpdateTitle assms show ?thesis by auto
  next
    case False
    then obtain v where v: "t = Some v" "v \<noteq> JNull" by auto
    with UpdateTitle assms(2) have s': "rows s' = map (\<lambda>r. if todo_id r = i
       then r\<lparr>title := column_text v, updated_at := clock s\<rparr> else r) (rows s)"
       "next_id s' = next_id s"
      by (cases v; auto)+
    have "map todo_id (rows s') = map todo_id (rows s)"
      unfolding s' by (rule map_keep_ids) simp
    then show ?thesis using assms(1) s'(2)
      by (simp add: keyed_def list_all_iff) (metis (mono_tags, lifting) image_iff list.set_map)
  qed
next
  case (DeleteCompleted u)
  with assms show ?thesis by (auto simp: keyed_def list_all_iff distinct_map_filter)
next
  case (DeleteById i)
  with assms show ?thesis by (auto simp: keyed_def list_all_iff distinct_map_filter)
qed

lemma store_call_keyed:
  assumes "keyed s" and "store_call e op s = (r, s')"
  shows "keyed s'"
  using assms store_exec_keyed [of s op r s']
  by (auto simp: store_call_def split: option.splits)


lemma add_replay: "add_todo e args u s = (r, s', ops) \<Longrightarrow> s' = replay e ops s"
  by (auto simp: add_todo_def Let_def split: prod.splits sum.splits if_splits)

lemma list_replay: "list_todos e args u s = (r, s', ops) \<Longrightarrow> s' = replay e ops s"
  by (auto simp: list_todos_def Let_def split: prod.splits sum.splits if_splits)

lemma toggle_replay: "toggle_todo e args u s = (r, s', ops) \<Longrightarrow> s' = replay e ops s"
  by (auto simp: toggle_todo_def Let_def split: prod.splits sum.splits list.splits if_splits)

lemma delete_replay: "delete_todo e args u s = (r, s', ops) \<Longrightarrow> s' = replay e ops s"
  by (auto simp: delete_todo_def Let_def split: prod.splits sum.splits list.splits if_splits)

lemma update_replay: "update_todo e args u s = (r, s', ops) \<Longrightarrow> s' = replay e ops s"
  by (auto simp: update_todo_def Let_def split: prod.splits sum.splits list.splits if_splits)

lemma executeTool_replay:
  "executeTool e name args u s = (r, s', ops) \<Longrightarrow> s' = replay e ops s"
  using add_replay list_replay toggle_replay delete_replay update_replay
  by (auto simp: executeTool_def split: if_splits)

lemma replay_keyed: "keyed s \<Longrightarrow> keyed (replay e ops s)"
proof (induction ops arbitrary: s)
  case Nil
  then show ?case by simp
next
  case (Cons op ops)
  from Cons.prems have "keyed (snd (store_call e op s))"
    by (metis store_call_keyed prod.collapse)
  from Cons.IH [OF this] show ?case by simp
qed

lemma executeTool_keyed:
  "keyed s \<Longrightarrow> executeTool e name args u s = (r, s', ops) \<Longrightarrow> keyed s'"
  using executeTool_replay replay_keyed by metis

subsection \<open>Isolation between users\<close>

lemma others_map:
  assumes "filter (\<lambda>t. todo_id t = i \<and> user_id t \<noteq> u) xs = []"
    and "\<And>x. user_id (f x) = user_id x"
  shows "filter (\<lambda>t. user_id t \<noteq> u) (map (\<lambda>r. if todo_id r = i then f r else r) xs)
       = filter (\<lambda>t. user_id t \<noteq> u) xs"
  using assms by (induction xs) (auto split: if_splits)

lemma others_delete:
  assumes "filter (\<lambda>t. todo_id t = i \<and> user_id t \<noteq> u) xs = []"
  shows "filter (\<lambda>t. user_id t \<noteq> u) (filter (\<lambda>r. todo_id r \<noteq> i) xs)
       = filter (\<lambda>t. user_id t \<noteq> u) xs"
  using assms by (induction xs) (auto split: if_splits)

lemma others_delete_completed:
  "filter (\<lambda>t. user_id t \<noteq> u) (filter (\<lambda>r. \<not> (user_id r = u \<and> completed r)) xs)
       = filter (\<lambda>t. user_id t \<noteq> u) xs"
  by (induction xs) auto

lemma store_exec_others:
  assumes "store_exec op s = (r, s')" and "confined s u op"
  shows "filter (\<lambda>t. user_id t \<noteq> u) (rows s') = filter (\<lambda>t. user_id t \<noteq> u) (rows s)"
proof (cases op)
  case (Insert u' t d)
  with assms show ?thesis
    by (auto simp: new_row_def split: option.splits json.splits)
next
  case (SelectAll u' f)
  with assms show ?thesis by (auto split: option.splits json.splits)
next
  case (SelectLike u' p)
  with assms show ?thesis by auto
next
  case (UpdateCompleted i b)
  with assms have e: "filter (\<lambda>t. todo_id t = i \<and> user_id t \<noteq> u) (rows s) = []" by simp
  from UpdateCompleted assms have "rows s' = map (\<lambda>r. if todo_id r = i
                                   then r\<lparr>completed := b, updated_at := clock s\<rparr> else r) (rows s)"
    by auto
  then show ?thesis using others_map [OF e, of "\<lambda>r. r\<lparr>completed := b, updated_at := clock s\<rparr>"] by simp
next
  case (UpdateTitle i v)
  with assms have e: "filter (\<lambda>t. todo_id t = i \<and> user_id t \<noteq> u) (rows s) = []" by simp
  from UpdateTitle assms have "rows s' = rows s \<or> (\<exists>x. rows s' = map (\<lambda>r. if todo_id r = i
                                   then r\<lparr>title := x, updated_at := clock s\<rparr> else r) (rows s))"
    by (auto split: option.splits json.splits)
  then show ?thesis using others_map [OF e, of "\<lambda>r. r\<lparr>title := x, updated_at := clock s\<rparr>" for x] by auto
next
  case (DeleteCompleted u')
  with assms have "rows s' = filter (\<lambda>r. \<not> (user_id r = u \<and> completed r)) (rows s)" by auto
  then show ?thesis using others_delete_completed by simp
next
  case (DeleteById i)
  with assms have e: "filter (\<lambda>t. todo_id t = i \<and> user_id t \<noteq> u) (rows s) = []" by simp
  from DeleteById assms have "rows s' = filter (\<lambda>r. todo_id r \<noteq> i) (rows s)" by auto
  then show ?thesis using others_delete [OF e] by simp
qed


lemma store_call_others:
  assumes "store_call e op s = (r, s')" and "confined s u op"
  shows "filter (\<lambda>t. user_id t \<noteq> u) (rows s') = filter (\<lambda>t. user_id t \<noteq> u) (rows s)"
proof (cases "fault e op")
  case None
  with assms(1) have "store_exec op s = (r, s')" by (simp add: store_call_def)
  then show ?thesis using assms(2) by (rule store_exec_others)
next
  case (Some m)
  with assms(1) show ?thesis by (simp add: store_call_def)
qed

lemma filter_filter_eq:
  "(\<And>x. x \<in> set xs \<Longrightarrow> (Q x \<and> P x) = R x) \<Longrightarrow> filter P (filter Q xs) = filter R xs"
  by (induction xs) auto

lemma mine_map:
  assumes "\<And>x. user_id (f x) = user_id x"
  shows "filter (\<lambda>t. user_id t = u) (map (\<lambda>r. if todo_id r = i then f r else r) xs)
       = map (\<lambda>r. if todo_id r = i then f r else r) (filter (\<lambda>t. user_id t = u) xs)"
  using assms by (induction xs) auto

lemma mine_filter:
  "filter (\<lambda>t. user_id t = u) (filter P xs) = filter P (filter (\<lambda>t. user_id t = u) xs)"
  by (induction xs) auto

lemma rows_restrict [simp]: "rows (restrict u s) = filter (\<lambda>t. user_id t = u) (rows s)"
  and next_id_restrict [simp]: "next_id (restrict u s) = next_id s"
  and clock_restrict [simp]: "clock (restrict u s) = clock s"
  by (simp_all add: restrict_def)

lemma db_eqI: "rows a = rows b \<Longrightarrow> next_id a = next_id b \<Longrightarrow> clock a = clock b \<Longrightarrow> (a::db) = b"
  by simp

lemma store_exec_restrict:
  assumes "store_exec op s = (r, s')" and "confined s u op"
  shows "store_exec op (restrict u s) = (r, restrict u s')"
proof (cases op)
  case (Insert u' t d)
  with assms show ?thesis
    by (auto simp: new_row_def restrict_def split: option.splits json.splits)
next
  case (SelectAll u' f)
  have a: "\<And>xs. filter (\<lambda>r. user_id r = u) (filter (\<lambda>t. user_id t = u) xs) = filter (\<lambda>r. user_id r = u) xs"
    by (rule filter_filter_eq) auto
  have b: "\<And>b xs. filter (\<lambda>r. user_id r = u \<and> completed r = b) (filter (\<lambda>t. user_id t = u) xs)
     = filter (\<lambda>r. user_id r = u \<and> completed r = b) xs"
    by (rule filter_filter_eq) auto
  from SelectAll assms have u: "u' = u" by simp
  show ?thesis
  proof (cases f)
    case None
    with SelectAll assms u show ?thesis by (auto simp: a simp del: filter_filter intro: db_eqI)
  next
    case (Some v)
    with SelectAll assms u show ?thesis by (cases v) (auto simp: b simp del: filter_filter intro: db_eqI)
  qed
next
  case (SelectLike u' p)
  have a: "\<And>xs. filter (\<lambda>r. user_id r = u \<and> ilike p (title r)) (filter (\<lambda>t. user_id t = u) xs)
     = filter (\<lambda>r. user_id r = u \<and> ilike p (title r)) xs"
    by (rule filter_filter_eq) auto
  from SelectLike assms show ?thesis by (auto simp: a simp del: filter_filter intro: db_eqI)
next
  case (UpdateCompleted i b)
  with assms have r: "r = Inr []" and "rows s' = map (\<lambda>r. if todo_id r = i
       then r\<lparr>completed := b, updated_at := clock s\<rparr> else r) (rows s)"
     and "next_id s' = next_id s" "clock s' = Suc (clock s)"
    by auto
  then have "s\<lparr>rows := map (\<lambda>r. if todo_id r = i
       then r\<lparr>completed := b, updated_at := clock s\<rparr> else r) (filter (\<lambda>t. user_id t = u) (rows s)),
       clock := Suc (clock s)\<rparr> = restrict u s'"
    using mine_map [of "\<lambda>r. r\<lparr>completed := b, updated_at := clock s\<rparr>" u i "rows s"]
    by (intro db_eqI) simp_all
  with UpdateCompleted r show ?thesis by (simp add: restrict_def cong: if_cong)
next
  case (UpdateTitle i v)
  show ?thesis
  proof (cases "v = None \<or> v = Some JNull")
    case True
    with UpdateTitle assms show ?thesis by (auto simp: restrict_def)
  next
    case False
    then obtain j where v: "v = Some j" "j \<noteq> JNull" by auto
    with UpdateTitle assms have r: "r = Inr []" and "rows s' = map (\<lambda>r. if todo_id r = i
       then r\<lparr>title := column_text j, updated_at := clock s\<rparr> else r) (rows s)"
     and "next_id s' = next_id s" "clock s' = Suc (clock s)"
      by (auto split: json.splits)
    then have "s\<lparr>rows := map (\<lambda>r. if todo_id r = i
       then r\<lparr>title := column_text j, updated_at := clock s\<rparr> else r) (filter (\<lambda>t. user_id t = u) (rows s)),
       clock := Suc (clock s)\<rparr> = restrict u s'"
      using mine_map [of "\<lambda>r. r\<lparr>title := column_text j, updated_at := clock s\<rparr>" u i "rows s"]
      by (intro db_eqI) simp_all
    with UpdateTitle r v show ?thesis by (cases j) (simp_all add: restrict_def cong: if_cong)
  qed
next
  case (DeleteCompleted u')
  with assms have "r = Inr []" "rows s' = filter (\<lambda>r. \<not> (user_id r = u \<and> completed r)) (rows s)"
     "next_id s' = next_id s" "clock s' = clock s" by auto
  with DeleteCompleted assms show ?thesis
    by (simp add: mine_filter restrict_def del: filter_filter)
next
  case (DeleteById i)
  with assms have "r = Inr []" "rows s' = filter (\<lambda>r. todo_id r \<noteq> i) (rows s)"
     "next_id s' = next_id s" "clock s' = clock s" by auto
  with DeleteById show ?thesis
    by (simp add: mine_filter restrict_def del: filter_filter)
qed

lemma store_call_restrict:
  assumes "store_call e op s = (r, s')" and "confined s u op"
  shows "store_call e op (restrict u s) = (r, restrict u s')"
proof (cases "fault e op")
  case None
  with assms(1) have "store_exec op s = (r, s')" by (simp add: store_call_def)
  then have "store_exec op (restrict u s) = (r, restrict u s')" using assms(2) by (rule store_exec_restrict)
  with None show ?thesis by (simp add: store_call_def)
next
  case (Some m)
  with assms(1) show ?thesis by (auto simp add: store_call_def)
qed

lemma select_like_same: "store_call e (SelectLike u p) s = (r, s') \<Longrightarrow> s' = s"
  by (auto simp: store_call_def split: option.splits)

lemma select_like_hd:
  assumes "store_call e (SelectLike u p) s = (Inr (t # ts), s')"
  shows "t \<in> set (rows s) \<and> user_id t = u"
proof -
  from assms have "t # ts = take 1 (filter (\<lambda>r. user_id r = u \<and> ilike p (title r)) (rows s))"
    by (auto simp: store_call_def split: option.splits)
  then have "t \<in> set (take 1 (filter (\<lambda>r. user_id r = u \<and> ilike p (title r)) (rows s)))"
    by (metis list.set_intros(1))
  then have "t \<in> set (filter (\<lambda>r. user_id r = u \<and> ilike p (title r)) (rows s))"
    by (rule in_set_takeD)
  then show ?thesis by simp
qed

lemma distinct_id_owner:
  assumes "distinct (map todo_id xs)" and "t \<in> set xs" and "user_id t = u"
  shows "filter (\<lambda>x. todo_id x = todo_id t \<and> user_id x \<noteq> u) xs = []"
proof -
  have "\<And>x. x \<in> set xs \<Longrightarrow> todo_id x = todo_id t \<Longrightarrow> x = t"
    using assms(1,2) by (meson distinct_map inj_onD)
  with assms(3) show ?thesis by (auto simp: filter_empty_conv)
qed

lemma toggle_isolated:
  assumes d: "distinct (map todo_id (rows s))" and x: "toggle_todo e args u s = (r, s', ops)"
  shows "filter (\<lambda>t. user_id t \<noteq> u) (rows s') = filter (\<lambda>t. user_id t \<noteq> u) (rows s)
       \<and> toggle_todo e args u (restrict u s) = (r, restrict u s', ops)
       \<and> list_all (confined s u) ops"
proof (cases "args = JNull")
  case True
  with x show ?thesis by (auto simp: toggle_todo_def)
next
  case False
  define op1 where "op1 = SelectLike u (''%'' @ js_string (js_prop args ''title'') @ ''%'')"
  obtain r1 s1 where c1: "store_call e op1 s = (r1, s1)" by (cases "store_call e op1 s")
  then have s1: "s1 = s" unfolding op1_def by (rule select_like_same)
  have sc1: "confined s u op1" by (simp add: op1_def)
  from c1 sc1 have c1': "store_call e op1 (restrict u s) = (r1, restrict u s)"
    unfolding s1 by (rule store_call_restrict)
  note c1 = c1[unfolded s1 op1_def] and c1' = c1'[unfolded op1_def] and sc1 = sc1[unfolded op1_def]
  show ?thesis
  proof (cases r1)
    case (Inl m)
    with x c1 c1' False sc1 show ?thesis
      by (auto simp: toggle_todo_def Let_def)
  next
    case (Inr ms)
    show ?thesis
    proof (cases ms)
      case Nil
      with Inr x c1 c1' False sc1 show ?thesis
        by (auto simp: toggle_todo_def Let_def)
    next
      case (Cons t ts)
      define op2 where "op2 = UpdateCompleted (todo_id t) (\<not> completed t)"
      obtain r2 s2 where c2: "store_call e op2 s = (r2, s2)" by (cases "store_call e op2 s")
      from c1 Inr Cons have t: "t \<in> set (rows s) \<and> user_id t = u"
        by (intro select_like_hd) simp
      with d have "filter (\<lambda>x. todo_id x = todo_id t \<and> user_id x \<noteq> u) (rows s) = []"
        by (intro distinct_id_owner) auto
      moreover from t have "list_ex (\<lambda>x. todo_id x = todo_id t \<and> user_id x = u) (rows s)"
        by (auto simp: list_ex_iff)
      ultimately have sc2: "confined s u op2" by (simp add: op2_def)
      from c2 sc2 have c2': "store_call e op2 (restrict u s) = (r2, restrict u s2)"
        by (rule store_call_restrict)
      from c2 sc2 have o: "filter (\<lambda>t. user_id t \<noteq> u) (rows s2) = filter (\<lambda>t. user_id t \<noteq> u) (rows s)"
        by (rule store_call_others)
      note c2 = c2[unfolded op2_def] and c2' = c2'[unfolded op2_def] and sc2 = sc2[unfolded op2_def]
      from Inr Cons x c1 c2 False have "s' = s2 \<and> ops = [op1, op2]"
        by (cases r2) (auto simp: toggle_todo_def Let_def op1_def op2_def)
      moreover from Inr Cons x c1 c2 c1' c2' False have "toggle_todo e args u (restrict u s) = (r, restrict u s2, ops)"
        by (cases r2) (auto simp: toggle_todo_def Let_def op1_def op2_def)
      ultimately show ?thesis using o sc1 sc2 by (simp add: op1_def op2_def)
    qed
  qed
qed


lemma found_row_op:
  assumes d: "distinct (map todo_id (rows s))"
    and c1: "store_call e (SelectLike u p) s = (Inr (t # ts), s)"
    and c2: "store_call e op2 s = (r2, s2)"
    and op2: "op2 = UpdateCompleted (todo_id t) b \<or> op2 = UpdateTitle (todo_id t) v
              \<or> op2 = DeleteById (todo_id t)"
  shows "confined s u op2"
    and "store_call e op2 (restrict u s) = (r2, restrict u s2)"
    and "filter (\<lambda>t. user_id t \<noteq> u) (rows s2) = filter (\<lambda>t. user_id t \<noteq> u) (rows s)"
proof -
  from c1 have t: "t \<in> set (rows s) \<and> user_id t = u" by (rule select_like_hd)
  with d have "filter (\<lambda>x. todo_id x = todo_id t \<and> user_id x \<noteq> u) (rows s) = []"
    by (intro distinct_id_owner) auto
  moreover from t have "list_ex (\<lambda>x. todo_id x = todo_id t \<and> user_id x = u) (rows s)"
    by (auto simp: list_ex_iff)
  ultimately show sc2: "confined s u op2" using op2 by auto
  from c2 sc2 show "store_call e op2 (restrict u s) = (r2, restrict u s2)"
    by (rule store_call_restrict)
  from c2 sc2 show "filter (\<lambda>t. user_id t \<noteq> u) (rows s2) = filter (\<lambda>t. user_id t \<noteq> u) (rows s)"
    by (rule store_call_others)
qed

lemma one_op:
  assumes c: "store_call e op s = (r1, s1)" and sc: "confined s u op"
  shows "store_call e op (restrict u s) = (r1, restrict u s1)"
    and "filter (\<lambda>t. user_id t \<noteq> u) (rows s1) = filter (\<lambda>t. user_id t \<noteq> u) (rows s)"
  using c sc by (rule store_call_restrict, rule store_call_others)

lemma add_isolated:
  assumes x: "add_todo e args u s = (r, s', ops)"
  shows "filter (\<lambda>t. user_id t \<noteq> u) (rows s') = filter (\<lambda>t. user_id t \<noteq> u) (rows s)
       \<and> add_todo e args u (restrict u s) = (r, restrict u s', ops)
       \<and> list_all (confined s u) ops"
proof (cases "args = JNull")
  case True
  with x show ?thesis by (auto simp: add_todo_def)
next
  case False
  define op where "op = Insert u (js_prop args ''title'')
                   (if truthy (js_prop args ''due_at'') then js_prop args ''due_at'' else None)"
  obtain r1 s1 where c: "store_call e op s = (r1, s1)" by (cases "store_call e op s")
  have sc: "confined s u op" by (simp add: op_def)
  note f = one_op [OF c sc]
  from x c False have "s' = s1 \<and> ops = [op]"
    by (cases r1) (auto simp: add_todo_def Let_def op_def)
  moreover from x c f(1) False have "add_todo e args u (restrict u s) = (r, restrict u s1, ops)"
    by (cases r1) (auto simp: add_todo_def Let_def op_def)
  ultimately show ?thesis using f(2) sc by simp
qed

lemma list_isolated:
  assumes x: "list_todos e args u s = (r, s', ops)"
  shows "filter (\<lambda>t. user_id t \<noteq> u) (rows s') = filter (\<lambda>t. user_id t \<noteq> u) (rows s)
       \<and> list_todos e args u (restrict u s) = (r, restrict u s', ops)
       \<and> list_all (confined s u) ops"
proof (cases "args = JNull")
  case True
  with x show ?thesis by (auto simp: list_todos_def)
next
  case False
  define op where "op = SelectAll u (js_prop args ''completed'')"
  obtain r1 s1 where c: "store_call e op s = (r1, s1)" by (cases "store_call e op s")
  have sc: "confined s u op" by (simp add: op_def)
  note f = one_op [OF c sc]
  from x c False have "s' = s1 \<and> ops = [op]"
    by (cases r1) (auto simp: list_todos_def Let_def op_def split: if_splits)
  moreover from x c f(1) False have "list_todos e args u (restrict u s) = (r, restrict u s1, ops)"
    by (cases r1) (auto simp: list_todos_def Let_def op_def split: if_splits)
  ultimately show ?thesis using f(2) sc by simp
qed

lemma delete_isolated:
  assumes d: "distinct (map todo_id (rows s))" and x: "delete_todo e args u s = (r, s', ops)"
  shows "filter (\<lambda>t. user_id t \<noteq> u) (rows s') = filter (\<lambda>t. user_id t \<noteq> u) (rows s)
       \<and> delete_todo e args u (restrict u s) = (r, restrict u s', ops)
       \<and> list_all (confined s u) ops"
proof (cases "args = JNull")
  case True
  with x show ?thesis by (auto simp: delete_todo_def)
next
  case False
  show ?thesis
  proof (cases "js_prop args ''title'' = Some (JStr ''__completed__'')")
    case True
    define op where "op = DeleteCompleted u"
    obtain r1 s1 where c: "store_call e op s = (r1, s1)" by (cases "store_call e op s")
    have sc: "confined s u op" by (simp add: op_def)
    note f = one_op [OF c sc]
    from x c False True have "s' = s1 \<and> ops = [op]"
      by (cases r1) (auto simp: delete_todo_def Let_def op_def)
    moreover from x c f(1) False True
    have "delete_todo e args u (restrict u s) = (r, restrict u s1, ops)"
      by (cases r1) (auto simp: delete_todo_def Let_def op_def)
    ultimately show ?thesis using f(2) sc by simp
  next
    case other: False
    define op1 where "op1 = SelectLike u (''%'' @ js_string (js_prop args ''title'') @ ''%'')"
    obtain r1 s1 where c1: "store_call e op1 s = (r1, s1)" by (cases "store_call e op1 s")
    then have s1: "s1 = s" unfolding op1_def by (rule select_like_same)
    have sc1: "confined s u op1" by (simp add: op1_def)
    from c1 sc1 have c1': "store_call e op1 (restrict u s) = (r1, restrict u s)"
      unfolding s1 by (rule store_call_restrict)
    note c1 = c1[unfolded s1 op1_def] and c1' = c1'[unfolded op1_def]
    show ?thesis
    proof (cases r1)
      case (Inl m)
      with x c1 c1' False other show ?thesis
        by (auto simp: delete_todo_def Let_def)
    next
      case (Inr ms)
      show ?thesis
      proof (cases ms)
        case Nil
        with Inr x c1 c1' False other show ?thesis
          by (auto simp: delete_todo_def Let_def)
      next
        case (Cons t ts)
        define op2 where "op2 = DeleteById (todo_id t)"
        obtain r2 s2 where c2: "store_call e op2 s = (r2, s2)" by (cases "store_call e op2 s")
        from c1 Inr Cons
        have c0: "store_call e (SelectLike u (''%'' @ js_string (js_prop args ''title'') @ ''%'')) s
                  = (Inr (t # ts), s)" by simp
        note f = found_row_op [OF d c0 c2, of False None]
        have o2: "op2 = UpdateCompleted (todo_id t) False \<or> op2 = UpdateTitle (todo_id t) None
              \<or> op2 = DeleteById (todo_id t)" by (simp add: op2_def)
        note c2 = c2[unfolded op2_def] and c2' = f(2)[OF o2, unfolded op2_def]
        from Inr Cons x c1 c2 False other have "s' = s2 \<and> ops = [op1, op2]"
          by (cases r2) (auto simp: delete_todo_def Let_def op1_def op2_def)
        moreover from Inr Cons x c1 c2 c1' c2' False other
        have "delete_todo e args u (restrict u s) = (r, restrict u s2, ops)"
          by (cases r2) (auto simp: delete_todo_def Let_def op1_def op2_def)
        ultimately show ?thesis using f(1,3)[OF o2] sc1 by simp
      qed
    qed
  qed
qed

lemma update_isolated:
  assumes d: "distinct (map todo_id (rows s))" and x: "update_todo e args u s = (r, s', ops)"
  shows "filter (\<lambda>t. user_id t \<noteq> u) (rows s') = filter (\<lambda>t. user_id t \<noteq> u) (rows s)
       \<and> update_todo e args u (restrict u s) = (r, restrict u s', ops)
       \<and> list_all (confined s u) ops"
proof (cases "args = JNull")
  case True
  with x show ?thesis by (auto simp: update_todo_def)
next
  case False
  define op1 where "op1 = SelectLike u (''%'' @ js_string (js_prop args ''old_title'') @ ''%'')"
  obtain r1 s1 where c1: "store_call e op1 s = (r1, s1)" by (cases "store_call e op1 s")
  then have s1: "s1 = s" unfolding op1_def by (rule select_like_same)
  have sc1: "confined s u op1" by (simp add: op1_def)
  from c1 sc1 have c1': "store_call e op1 (restrict u s) = (r1, restrict u s)"
    unfolding s1 by (rule store_call_restrict)
  note c1 = c1[unfolded s1 op1_def] and c1' = c1'[unfolded op1_def]
  show ?thesis
  proof (cases r1)
    case (Inl m)
    with x c1 c1' False show ?thesis
      by (auto simp: update_todo_def Let_def)
  next
    case (Inr ms)
    show ?thesis
    proof (cases ms)
      case Nil
      with Inr x c1 c1' False show ?thesis
        by (auto simp: update_todo_def Let_def)
    next
      case (Cons t ts)
      define op2 where "op2 = UpdateTitle (todo_id t) (js_prop args ''new_title'')"
      obtain r2 s2 where c2: "store_call e op2 s = (r2, s2)" by (cases "store_call e op2 s")
      from c1 Inr Cons
      have c0: "store_call e (SelectLike u (''%'' @ js_string (js_prop args ''old_title'') @ ''%'')) s
                = (Inr (t # ts), s)" by simp
      note f = found_row_op [OF d c0 c2, of False "js_prop args ''new_title''"]
      have o2: "op2 = UpdateCompleted (todo_id t) False
            \<or> op2 = UpdateTitle (todo_id t) (js_prop args ''new_title'')
            \<or> op2 = DeleteById (todo_id t)" by (simp add: op2_def)
      note c2 = c2[unfolded op2_def] and c2' = f(2)[OF o2, unfolded op2_def]
      from Inr Cons x c1 c2 False have "s' = s2 \<and> ops = [op1, op2]"
        by (cases r2) (auto simp: update_todo_def Let_def op1_def op2_def)
      moreover from Inr Cons x c1 c2 c1' c2' False
      have "update_todo e args u (restrict u s) = (r, restrict u s2, ops)"
        by (cases r2) (auto simp: update_todo_def Let_def op1_def op2_def)
      ultimately show ?thesis using f(1,3)[OF o2] sc1 by simp
    qed
  qed
qed

lemma executeTool_isolated:
  assumes d: "distinct (map todo_id (rows s))" and x: "executeTool e name args u s = (r, s', ops)"
  shows "filter (\<lambda>t. user_id t \<noteq> u) (rows s') = filter (\<lambda>t. user_id t \<noteq> u) (rows s)
       \<and> executeTool e name args u (restrict u s) = (r, restrict u s', ops)
       \<and> list_all (confined s u) ops"
proof (cases "name = ''add_todo''")
  case True
  with x add_isolated [of e args u s r s' ops] show ?thesis by (simp add: executeTool_def)
next
  case n1: False
  show ?thesis
  proof (cases "name = ''list_todos''")
    case True
    with x list_isolated [of e args u s r s' ops] show ?thesis by (simp add: executeTool_def)
  next
    case n2: False
    show ?thesis
    proof (cases "name = ''toggle_todo''")
      case True
      with x toggle_isolated [OF d, of e args u r s' ops] show ?thesis
        by (simp add: executeTool_def)
    next
      case n3: False
      show ?thesis
      proof (cases "name = ''delete_todo''")
        case True
        with x delete_isolated [OF d, of e args u r s' ops] show ?thesis
          by (simp add: executeTool_def)
      next
        case n4: False
        show ?thesis
        proof (cases "name = ''update_todo''")
          case True
          with x update_isolated [OF d, of e args u r s' ops] show ?thesis
            by (simp add: executeTool_def)
        next
          case False
          with n1 n2 n3 n4 x show ?thesis by (auto simp: executeTool_def)
        qed
      qed
    qed
  qed
qed

lemma confined_request:
  "confined s u op \<Longrightarrow>
     (case id_filter op of
        None \<Rightarrow> user_filter op = Some u
      | Some i \<Rightarrow> user_filter op = None
                 \<and> list_ex (\<lambda>t. todo_id t = i \<and> user_id t = u) (rows s)
                 \<and> filter (\<lambda>t. todo_id t = i \<and> user_id t \<noteq> u) (rows s) = [])"
  by (cases op) simp_all

lemma confined_requests:
  "list_all (confined s u) ops \<Longrightarrow>
     list_all (\<lambda>op. case id_filter op of
                       None \<Rightarrow> user_filter op = Some u
                     | Some i \<Rightarrow> user_filter op = None
                                \<and> list_ex (\<lambda>t. todo_id t = i \<and> user_id t = u) (rows s)
                                \<and> filter (\<lambda>t. todo_id t = i \<and> user_id t \<noteq> u) (rows s) = []) ops"
  by (induction ops) (simp_all add: confined_request)


text \<open>
  C4 (as amended). One call of \<open>executeTool\<close> for user \<open>u1\<close>, on a table whose ids are
  distinct (the primary key): the rows of any other user \<open>u2\<close> are the same afterwards; the
  call does not read them, as it returns the same text, sends the same requests and leaves
  the same rows of \<open>u1\<close> on the table that holds the rows of \<open>u1\<close> alone; and the bulk
  delete \<open>__completed__\<close>, when the store accepts it, removes the completed rows of \<open>u1\<close>
  and nothing else. Of the requests it sends, the insert, the selects and the bulk delete
  name \<open>u1\<close> as their user. The updates and the delete by id name no user: the id they
  carry is the id of a row of \<open>u1\<close> on the table, and of no row of anybody else.
\<close>

theorem cross_user_isolation:
  assumes "distinct (map todo_id (rows s))" and "u2 \<noteq> u1"
    and "executeTool e name args u1 s = (r, s', ops)"
  shows "filter (\<lambda>t. user_id t = u2) (rows s') = filter (\<lambda>t. user_id t = u2) (rows s)
       \<and> executeTool e name args u1 (restrict u1 s) = (r, restrict u1 s', ops)
       \<and> list_all (\<lambda>op. case id_filter op of
                           None \<Rightarrow> user_filter op = Some u1
                         | Some i \<Rightarrow>
                             user_filter op = None
                             \<and> list_ex (\<lambda>t. todo_id t = i \<and> user_id t = u1) (rows s)
                             \<and> filter (\<lambda>t. todo_id t = i \<and> user_id t \<noteq> u1) (rows s) = []) ops
       \<and> (if name = ''delete_todo'' \<and> js_prop args ''title'' = Some (JStr ''__completed__'')
              \<and> fault e (DeleteCompleted u1) = None
           then rows s' = filter (\<lambda>t. \<not> (user_id t = u1 \<and> completed t)) (rows s)
           else True)"
proof -
  note iso = executeTool_isolated [OF assms(1,3)]
  have sub: "\<And>xs. filter (\<lambda>t. user_id t = u2) (filter (\<lambda>t. user_id t \<noteq> u1) xs)
      = filter (\<lambda>t. user_id t = u2) xs"
    using assms(2) by (intro filter_filter_eq) auto
  from iso have "filter (\<lambda>t. user_id t \<noteq> u1) (rows s') = filter (\<lambda>t. user_id t \<noteq> u1) (rows s)"
    by simp
  then have "filter (\<lambda>t. user_id t = u2) (filter (\<lambda>t. user_id t \<noteq> u1) (rows s'))
      = filter (\<lambda>t. user_id t = u2) (filter (\<lambda>t. user_id t \<noteq> u1) (rows s))"
    by (rule arg_cong)
  then have 1: "filter (\<lambda>t. user_id t = u2) (rows s') = filter (\<lambda>t. user_id t = u2) (rows s)"
    by (simp only: sub)
  have 2: "rows s' = filter (\<lambda>t. \<not> (user_id t = u1 \<and> completed t)) (rows s)"
    if "name = ''delete_todo''" "js_prop args ''title'' = Some (JStr ''__completed__'')"
       "fault e (DeleteCompleted u1) = None"
  proof -
    from that(2) have "args \<noteq> JNull" by auto
    with that assms(3) show ?thesis
      by (auto simp: executeTool_def delete_todo_def store_call_def)
  qed
  from iso have "list_all (confined s u1) ops" by simp
  then have 3: "list_all (\<lambda>op. case id_filter op of
                           None \<Rightarrow> user_filter op = Some u1
                         | Some i \<Rightarrow>
                             user_filter op = None
                             \<and> list_ex (\<lambda>t. todo_id t = i \<and> user_id t = u1) (rows s)
                             \<and> filter (\<lambda>t. todo_id t = i \<and> user_id t \<noteq> u1) (rows s) = []) ops"
    by (rule confined_requests)
  from iso have 4: "executeTool e name args u1 (restrict u1 s) = (r, restrict u1 s', ops)" by simp
  from 1 2 3 4 show ?thesis by simp
qed

theorem cross_user_isolation_witness:
  "distinct (map todo_id (rows db1)) \<and> ''u2'' \<noteq> ''u1''
   \<and> executeTool env0 ''delete_todo'' (JObj [(''title'', JStr ''__completed__'')]) ''u1'' db1
       = (Inr ''Deleted all completed tasks.'',
          db1\<lparr>rows := [rows db1 ! 1, rows db1 ! 2]\<rparr>, [DeleteCompleted ''u1''])
   \<and> filter (\<lambda>t. user_id t = ''u2'') (rows (db1\<lparr>rows := [rows db1 ! 1, rows db1 ! 2]\<rparr>))
       = filter (\<lambda>t. user_id t = ''u2'') (rows db1)
   \<and> executeTool env0 ''delete_todo'' (JObj [(''title'', JStr ''mum'')]) ''u1'' db1
       = (Inr (''Deleted: '' @ dq @ ''Call mum'' @ dq),
          db1\<lparr>rows := [rows db1 ! 0, rows db1 ! 1]\<rparr>,
          [SelectLike ''u1'' ''%mum%'', DeleteById 2])
   \<and> executeTool env0 ''delete_todo'' (JObj [(''title'', JStr ''mum'')]) ''u1'' (restrict ''u1'' db1)
       = (Inr (''Deleted: '' @ dq @ ''Call mum'' @ dq),
          restrict ''u1'' (db1\<lparr>rows := [rows db1 ! 0, rows db1 ! 1]\<rparr>),
          [SelectLike ''u1'' ''%mum%'', DeleteById 2])
   \<and> user_filter (DeleteById 2) = None
   \<and> list_ex (\<lambda>t. todo_id t = 2 \<and> user_id t = ''u1'') (rows db1)
   \<and> filter (\<lambda>t. todo_id t = 2 \<and> user_id t \<noteq> ''u1'') (rows db1) = []"
proof -
  have h1: "distinct (map todo_id (rows db1))" by (simp add: db1_def)
  have h2: "''u2'' \<noteq> ''u1''" by simp
  have h3: "executeTool env0 ''delete_todo'' (JObj [(''title'', JStr ''__completed__'')]) ''u1'' db1
       = (Inr ''Deleted all completed tasks.'',
          db1\<lparr>rows := [rows db1 ! 1, rows db1 ! 2]\<rparr>, [DeleteCompleted ''u1''])"
    by (simp add: executeTool_def delete_todo_def store_call_def env0_def db1_def)
  have h4: "executeTool env0 ''delete_todo'' (JObj [(''title'', JStr ''mum'')]) ''u1'' db1
       = (Inr (''Deleted: '' @ dq @ ''Call mum'' @ dq),
          db1\<lparr>rows := [rows db1 ! 0, rows db1 ! 1]\<rparr>,
          [SelectLike ''u1'' ''%mum%'', DeleteById 2])"
    by (simp add: executeTool_def delete_todo_def store_call_def env0_def db1_def lower_def
        js_string_def)
  from cross_user_isolation [OF h1 h2 h3] cross_user_isolation [OF h1 h2 h4] h1 h2 h3 h4
  show ?thesis by simp
qed


text \<open>
  C4 as stated fails on the requests: \<open>toggle_todo\<close> for \<open>u1\<close> sends an update that names
  no user, only the id 2. The store applies such a request to the row with that id
  whoever owns it: on a table where the row 2 is a row of \<open>u2\<close>, the same request
  completes the task of \<open>u2\<close>.
\<close>

theorem mutation_by_id_names_no_user:
  "snd (snd (executeTool env0 ''toggle_todo'' (JObj [(''title'', JStr ''mum'')]) ''u1'' db1))
     = [SelectLike ''u1'' ''%mum%'', UpdateCompleted 2 True]
   \<and> user_filter (UpdateCompleted 2 True) = None
   \<and> map user_id (rows db3) = [''u2''] \<and> map completed (rows db3) = [False]
   \<and> map completed (rows (snd (store_call env0 (UpdateCompleted 2 True) db3))) = [True]"
  by (simp add: executeTool_def toggle_todo_def store_call_def env0_def db1_def db3_def lower_def
      js_string_def)

subsection \<open>The executor returns a text\<close>







subsection \<open>Which of several matching tasks is taken\<close>

lemma same_id_same_row:
  assumes "distinct (map todo_id xs)" and "c \<in> set xs" and "r \<in> set xs"
  shows "(todo_id r = todo_id c) = (r = c)"
  using assms by (meson distinct_map inj_onD)

lemma map_by_id:
  assumes "distinct (map todo_id xs)" and "c \<in> set xs"
  shows "map (\<lambda>r. if todo_id r = todo_id c then f r else r) xs
       = map (\<lambda>r. if r = c then f r else r) xs"
  using same_id_same_row [OF assms] by (intro map_cong) auto

lemma filter_by_id:
  assumes "distinct (map todo_id xs)" and "c \<in> set xs"
  shows "filter (\<lambda>r. todo_id r \<noteq> todo_id c) xs = filter (\<lambda>r. r \<noteq> c) xs"
  using same_id_same_row [OF assms] by (intro filter_cong) auto

lemma candidates_hd:
  assumes "candidates u t s = c # cs"
  shows "c \<in> set (rows s)"
    and "take 1 (filter (\<lambda>r. user_id r = u \<and> ilike (''%'' @ t @ ''%'') (title r)) (rows s)) = [c]"
proof -
  from assms have "c \<in> set (candidates u t s)" by simp
  then show "c \<in> set (rows s)" by (simp add: candidates_def)
  from assms show "take 1 (filter (\<lambda>r. user_id r = u \<and> ilike (''%'' @ t @ ''%'') (title r)) (rows s)) = [c]"
    by (simp add: candidates_def)
qed

lemma toggle_first:
  assumes d: "distinct (map todo_id (rows s))" and nf: "fault e = (\<lambda>op. None)"
    and a: "args \<noteq> JNull"
    and c: "candidates u (js_string (js_prop args ''title'')) s = c # cs"
  shows "executeTool e ''toggle_todo'' args u s =
          (Inr ((if completed c then ''Uncompleted'' else ''Completed'') @ '': '' @ dq @ title c @ dq),
           s\<lparr>rows := map (\<lambda>r. if r = c then r\<lparr>completed := \<not> completed c, updated_at := clock s\<rparr>
                                 else r) (rows s),
             clock := Suc (clock s)\<rparr>,
           [SelectLike u (''%'' @ js_string (js_prop args ''title'') @ ''%''),
            UpdateCompleted (todo_id c) (\<not> completed c)])"
proof -
  note h = candidates_hd [OF c]
  from h(2) have t: "take (Suc 0) (filter (\<lambda>r. user_id r = u \<and> ilike (CHR ''%'' # js_string (js_prop args ''title'') @ ''%'') (title r)) (rows s)) = [c]"
    by simp
  show ?thesis
    using a t map_by_id [OF d h(1), of "\<lambda>r. r\<lparr>completed := \<not> completed c, updated_at := clock s\<rparr>"]
    by (simp add: executeTool_def toggle_todo_def store_call_def nf)
qed

lemma delete_first:
  assumes d: "distinct (map todo_id (rows s))" and nf: "fault e = (\<lambda>op. None)"
    and a: "args \<noteq> JNull" and b: "js_prop args ''title'' \<noteq> Some (JStr ''__completed__'')"
    and c: "candidates u (js_string (js_prop args ''title'')) s = c # cs"
  shows "executeTool e ''delete_todo'' args u s =
          (Inr (''Deleted: '' @ dq @ title c @ dq),
           s\<lparr>rows := filter (\<lambda>r. r \<noteq> c) (rows s)\<rparr>,
           [SelectLike u (''%'' @ js_string (js_prop args ''title'') @ ''%''),
            DeleteById (todo_id c)])"
proof -
  note h = candidates_hd [OF c]
  from h(2) have t: "take (Suc 0) (filter (\<lambda>r. user_id r = u \<and> ilike (CHR ''%'' # js_string (js_prop args ''title'') @ ''%'') (title r)) (rows s)) = [c]"
    by simp
  show ?thesis
    using a b t filter_by_id [OF d h(1)]
    by (simp add: executeTool_def delete_todo_def store_call_def nf)
qed

lemma update_first:
  assumes d: "distinct (map todo_id (rows s))" and nf: "fault e = (\<lambda>op. None)"
    and n: "js_prop args ''new_title'' = Some (JStr n)"
    and c: "candidates u (js_string (js_prop args ''old_title'')) s = c # cs"
  shows "executeTool e ''update_todo'' args u s =
          (Inr (''Updated '' @ dq @ title c @ dq @ '' '' @ arrow @ '' '' @ dq @ n @ dq),
           s\<lparr>rows := map (\<lambda>r. if r = c then r\<lparr>title := n, updated_at := clock s\<rparr> else r) (rows s),
             clock := Suc (clock s)\<rparr>,
           [SelectLike u (''%'' @ js_string (js_prop args ''old_title'') @ ''%''),
            UpdateTitle (todo_id c) (Some (JStr n))])"
proof -
  note h = candidates_hd [OF c]
  from n have a: "args \<noteq> JNull" by auto
  from h(2) have t: "take (Suc 0) (filter (\<lambda>r. user_id r = u \<and> ilike (CHR ''%'' # js_string (js_prop args ''old_title'') @ ''%'') (title r)) (rows s)) = [c]"
    by simp
  have ct: "column_text (JStr n) = n" by (simp add: column_text_def)
  have js: "js_string (Some (JStr n)) = n" by (simp add: js_string_def)
  show ?thesis
    using a n t map_by_id [OF d h(1), of "\<lambda>r. r\<lparr>title := n, updated_at := clock s\<rparr>"]
    by (simp add: executeTool_def update_todo_def store_call_def nf ct js cong: if_cong)
qed



text \<open>
  C2 (as amended). On a table with distinct ids and a store that accepts the requests, a
  \<open>toggle_todo\<close>, \<open>delete_todo\<close> (other than \<open>__completed__\<close>) or \<open>update_todo\<close> call whose
  lookup matches one or more rows of the user acts on exactly one row: the first match in the
  store's scan order, whatever its creation time. The lookup has \<open>limit(1)\<close> and no
  \<open>order\<close>.
\<close>

theorem first_candidate_chosen:
  assumes "distinct (map todo_id (rows s))" and "fault e = (\<lambda>op. None)" and "args \<noteq> JNull"
  shows
    "(candidates u (js_string (js_prop args ''title'')) s = c # cs \<longrightarrow>
        executeTool e ''toggle_todo'' args u s =
          (Inr ((if completed c then ''Uncompleted'' else ''Completed'')
                @ '': '' @ dq @ title c @ dq),
           s\<lparr>rows := map (\<lambda>r. if r = c
                                 then r\<lparr>completed := \<not> completed c, updated_at := clock s\<rparr>
                                 else r) (rows s),
             clock := Suc (clock s)\<rparr>,
           [SelectLike u (''%'' @ js_string (js_prop args ''title'') @ ''%''),
            UpdateCompleted (todo_id c) (\<not> completed c)])
        \<and> (js_prop args ''title'' \<noteq> Some (JStr ''__completed__'') \<longrightarrow>
            executeTool e ''delete_todo'' args u s =
              (Inr (''Deleted: '' @ dq @ title c @ dq),
               s\<lparr>rows := filter (\<lambda>r. r \<noteq> c) (rows s)\<rparr>,
               [SelectLike u (''%'' @ js_string (js_prop args ''title'') @ ''%''),
                DeleteById (todo_id c)])))
     \<and> (candidates u (js_string (js_prop args ''old_title'')) s = c # cs
          \<and> js_prop args ''new_title'' = Some (JStr n) \<longrightarrow>
        executeTool e ''update_todo'' args u s =
          (Inr (''Updated '' @ dq @ title c @ dq @ '' '' @ arrow @ '' '' @ dq @ n @ dq),
           s\<lparr>rows := map (\<lambda>r. if r = c then r\<lparr>title := n, updated_at := clock s\<rparr> else r)
                         (rows s),
             clock := Suc (clock s)\<rparr>,
           [SelectLike u (''%'' @ js_string (js_prop args ''old_title'') @ ''%''),
            UpdateTitle (todo_id c) (Some (JStr n))]))"
proof (intro conjI impI)
  assume "candidates u (js_string (js_prop args ''title'')) s = c # cs"
  then show "executeTool e ''toggle_todo'' args u s =
          (Inr ((if completed c then ''Uncompleted'' else ''Completed'')
                @ '': '' @ dq @ title c @ dq),
           s\<lparr>rows := map (\<lambda>r. if r = c
                                 then r\<lparr>completed := \<not> completed c, updated_at := clock s\<rparr>
                                 else r) (rows s),
             clock := Suc (clock s)\<rparr>,
           [SelectLike u (''%'' @ js_string (js_prop args ''title'') @ ''%''),
            UpdateCompleted (todo_id c) (\<not> completed c)])"
    by (rule toggle_first [OF assms])
next
  assume "candidates u (js_string (js_prop args ''title'')) s = c # cs"
    and "js_prop args ''title'' \<noteq> Some (JStr ''__completed__'')"
  then show "executeTool e ''delete_todo'' args u s =
              (Inr (''Deleted: '' @ dq @ title c @ dq),
               s\<lparr>rows := filter (\<lambda>r. r \<noteq> c) (rows s)\<rparr>,
               [SelectLike u (''%'' @ js_string (js_prop args ''title'') @ ''%''),
                DeleteById (todo_id c)])"
    by (intro delete_first [OF assms])
next
  assume "candidates u (js_string (js_prop args ''old_title'')) s = c # cs
          \<and> js_prop args ''new_title'' = Some (JStr n)"
  then show "executeTool e ''update_todo'' args u s =
          (Inr (''Updated '' @ dq @ title c @ dq @ '' '' @ arrow @ '' '' @ dq @ n @ dq),
           s\<lparr>rows := map (\<lambda>r. if r = c then r\<lparr>title := n, updated_at := clock s\<rparr> else r)
                         (rows s),
             clock := Suc (clock s)\<rparr>,
           [SelectLike u (''%'' @ js_string (js_prop args ''old_title'') @ ''%''),
            UpdateTitle (todo_id c) (Some (JStr n))])"
    by (intro update_first [OF assms(1,2)]) simp_all
qed

theorem first_candidate_chosen_witness:
  "distinct (map todo_id (rows db2)) \<and> fault env0 = (\<lambda>op. None) \<and> milk_args \<noteq> JNull
   \<and> candidates ''u1'' ''milk'' db2 = [rows db2 ! 0, rows db2 ! 1]
   \<and> created_at (rows db2 ! 0) < created_at (rows db2 ! 1)
   \<and> fst (executeTool env0 ''toggle_todo'' milk_args ''u1'' db2)
       = Inr (''Completed: '' @ dq @ ''Buy milk'' @ dq)
   \<and> fst (executeTool env0 ''delete_todo'' milk_args ''u1'' db2)
       = Inr (''Deleted: '' @ dq @ ''Buy milk'' @ dq)
   \<and> fst (executeTool env0 ''update_todo'' milk_args ''u1'' db2)
       = Inr (''Updated '' @ dq @ ''Buy milk'' @ dq @ '' '' @ arrow @ '' '' @ dq
              @ ''Buy oat milk'' @ dq)"
proof -
  have h1: "distinct (map todo_id (rows db2))" by (simp add: db2_def)
  have h2: "fault env0 = (\<lambda>op. None)" by (simp add: env0_def)
  have h3: "milk_args \<noteq> JNull" by (simp add: milk_args_def)
  have t: "js_string (js_prop milk_args ''title'') = ''milk''"
    and t': "js_string (js_prop milk_args ''old_title'') = ''milk''"
    and n: "js_prop milk_args ''new_title'' = Some (JStr ''Buy oat milk'')"
    and nc: "js_prop milk_args ''title'' \<noteq> Some (JStr ''__completed__'')"
    by (simp_all add: milk_args_def js_string_def)
  have c: "candidates ''u1'' ''milk'' db2 = [rows db2 ! 0, rows db2 ! 1]"
    by (simp add: candidates_def db2_def lower_def)
  have o: "created_at (rows db2 ! 0) < created_at (rows db2 ! 1)" by (simp add: db2_def)
  have r: "title (rows db2 ! 0) = ''Buy milk''" "\<not> completed (rows db2 ! 0)"
    by (simp_all add: db2_def)
  from first_candidate_chosen [OF h1 h2 h3, of "''u1''" "rows db2 ! 0" "[rows db2 ! 1]"
         "''Buy oat milk''"] h1 h2 h3 c o t t' n nc r
  show ?thesis by simp
qed

text \<open>
  C2 as stated fails: of two matching tasks, \<open>toggle_todo\<close> completes the one created
  first, not the most recent one.
\<close>

theorem most_recent_not_chosen:
  "candidates ''u1'' ''milk'' db2 = rows db2
   \<and> map created_at (rows db2) = [1, 2]
   \<and> executeTool env0 ''toggle_todo'' (JObj [(''title'', JStr ''milk'')]) ''u1'' db2
     = (Inr (''Completed: '' @ dq @ ''Buy milk'' @ dq),
        \<lparr>rows =
          [\<lparr>todo_id = 0, user_id = ''u1'', title = ''Buy milk'', completed = True,
            due_at = None, created_at = 1, updated_at = 3\<rparr>,
           \<lparr>todo_id = 1, user_id = ''u1'', title = ''Buy milk tomorrow'', completed = False,
            due_at = None, created_at = 2, updated_at = 2\<rparr>],
         next_id = 2, clock = 4\<rparr>,
        [SelectLike ''u1'' ''%milk%'', UpdateCompleted 0 True])"
  by (simp add: executeTool_def toggle_todo_def store_call_def env0_def db2_def candidates_def
      js_string_def lower_def)



subsection \<open>Failures of the store\<close>

text \<open>
  C5. With a store that fails every request, \<open>toggle_todo\<close> sends its lookup, drops the
  error of the answer and reports that no task matches, where the claim asks for
  \<open>Error: connection refused\<close>; \<open>list_todos\<close>, on the same store, does report the error.
\<close>

theorem lookup_failure_reported_as_no_match:
  "executeTool env_down ''toggle_todo'' (JObj [(''title'', JStr ''milk'')]) ''u1'' db2
     = (Inr (''No task found matching '' @ dq @ ''milk'' @ dq), db2, [SelectLike ''u1'' ''%milk%''])
   \<and> executeTool env_down ''list_todos'' (JObj []) ''u1'' db2
     = (Inr ''Error: connection refused'', db2, [SelectAll ''u1'' None])"
  by (simp add: executeTool_def toggle_todo_def list_todos_def store_call_def env_down_def env0_def
      js_string_def no_match_def)

section \<open>Properties of the request handler\<close>

subsection \<open>The loop\<close>

lemma run_tool_calls_model_calls:
  "run_tool_calls e u tcs conv w = (x, conv', w') \<Longrightarrow> model_calls w' = model_calls w"
proof (induction tcs arbitrary: conv w)
  case Nil
  then show ?case by simp
next
  case (Cons tc tcs)
  show ?case
  proof (cases "JSON_parse (fn_arguments tc)")
    case None
    with Cons.prems show ?thesis by simp
  next
    case (Some a)
    obtain r s' ops where ex: "executeTool e (fn_name tc) a u (store w) = (r, s', ops)"
      by (cases "executeTool e (fn_name tc) a u (store w)")
    show ?thesis
    proof (cases r)
      case (Inl ex')
      with Cons.prems Some ex show ?thesis by (auto simp: Let_def)
    next
      case (Inr res)
      with Cons.prems Some ex have
        "run_tool_calls e u tcs (conv @ [ToolResult (call_id tc) res])
           (w\<lparr>console := console w @ [LogExecuting (fn_name tc) a], store := s',
              store_ops := store_ops w @ ops\<rparr>) = (x, conv', w')"
        by (simp add: Let_def)
      from Cons.IH [OF this] show ?thesis by simp
    qed
  qed
qed









lemma tool_loop_model_calls:
  "n = MAX_ITERATIONS - i \<Longrightarrow>
   \<exists>qs. model_calls (snd (snd (snd (snd (tool_loop e u i conv m w))))) = model_calls w @ qs
        \<and> list_all (\<lambda>q. req_tools q = tools) qs"
proof (induction n arbitrary: i conv m w)
  case 0
  then have "\<not> i < MAX_ITERATIONS" by simp
  then have "tool_loop e u i conv m w = (None, i, conv, m, w)"
    by (subst tool_loop.simps) (simp split: option.splits)
  then show ?case by simp
next
  case (Suc n)
  then have i: "i < MAX_ITERATIONS" and n: "n = MAX_ITERATIONS - Suc i" by simp_all
  show ?case
  proof (cases "tool_calls m")
    case None
    then have "tool_loop e u i conv m w = (None, i, conv, m, w)"
      by (subst tool_loop.simps) simp
    then show ?thesis by simp
  next
    case (Some tcs)
    obtain x c1 w1 where run: "run_tool_calls e u tcs (conv @ [Assistant m]) w = (x, c1, w1)"
      by (cases "run_tool_calls e u tcs (conv @ [Assistant m]) w")
    from run have mc: "model_calls w1 = model_calls w" by (rule run_tool_calls_model_calls)
    have t: "req_tools (completion c1) = tools" by (simp add: completion_def)
    show ?thesis
    proof (cases x)
      case (Some ex)
      then have "tool_loop e u i conv m w = (Some ex, Suc i, c1, m, w1)"
        using \<open>tool_calls m = Some tcs\<close> i run by (subst tool_loop.simps) simp
      with mc show ?thesis by simp
    next
      case None
      show ?thesis
      proof (cases "completions e (completion c1)")
        case (Inl ex)
        then have "tool_loop e u i conv m w
            = (Some ex, Suc i, c1, m, w1\<lparr>model_calls := model_calls w1 @ [completion c1]\<rparr>)"
          using \<open>tool_calls m = Some tcs\<close> i run None by (subst tool_loop.simps) simp
        with mc t show ?thesis by simp
      next
        case (Inr r)
        show ?thesis
        proof (cases "ok r")
          case False
          then have "tool_loop e u i conv m w
            = (None, Suc i, c1, m, w1\<lparr>model_calls := model_calls w1 @ [completion c1],
                 console := console w1 @ [LogFollowUpError (resp_status r) (resp_text r)]\<rparr>)"
            using \<open>tool_calls m = Some tcs\<close> i run None Inr by (subst tool_loop.simps) simp
          with mc t show ?thesis by simp
        next
          case True
          show ?thesis
          proof (cases "resp_message r")
            case (Inl ex)
            then have "tool_loop e u i conv m w
              = (Some ex, Suc i, c1, m, w1\<lparr>model_calls := model_calls w1 @ [completion c1]\<rparr>)"
              using \<open>tool_calls m = Some tcs\<close> i run None \<open>completions e (completion c1) = Inr r\<close> True
              by (subst tool_loop.simps) simp
            with mc t show ?thesis by simp
          next
            case (Inr m1)
            then have eq: "tool_loop e u i conv m w
              = tool_loop e u (Suc i) c1 m1 (w1\<lparr>model_calls := model_calls w1 @ [completion c1]\<rparr>)"
              using \<open>tool_calls m = Some tcs\<close> i run None \<open>completions e (completion c1) = Inr r\<close> True
              by (subst tool_loop.simps) simp
            from Suc.IH [OF n, of c1 m1 "w1\<lparr>model_calls := model_calls w1 @ [completion c1]\<rparr>"]
            obtain qs where "model_calls (snd (snd (snd (snd (tool_loop e u (Suc i) c1 m1
                 (w1\<lparr>model_calls := model_calls w1 @ [completion c1]\<rparr>))))))
               = model_calls w @ completion c1 # qs" and "list_all (\<lambda>q. req_tools q = tools) qs"
              using mc by auto
            with eq t show ?thesis by simp
          qed
        qed
      qed
    qed
  qed
qed

lemma converse_model_calls:
  "\<exists>qs. model_calls (snd (converse e u ms w)) = model_calls w @ qs
        \<and> list_all (\<lambda>q. req_tools q = tools) qs"
proof -
  let ?q = "completion (allMessages e ms)"
  let ?w1 = "w\<lparr>model_calls := model_calls w @ [?q]\<rparr>"
  have t: "req_tools ?q = tools" by (simp add: completion_def)
  show ?thesis
  proof (cases "completions e ?q")
    case (Inl ex)
    with t show ?thesis by (simp add: converse_def Let_def)
  next
    case (Inr r)
    show ?thesis
    proof (cases "ok r")
      case False
      with Inr t show ?thesis by (simp add: converse_def Let_def)
    next
      case True
      show ?thesis
      proof (cases "resp_message r")
        case (Inl ex)
        with Inr True t show ?thesis by (simp add: converse_def Let_def)
      next
        case m: (Inr m)
        obtain x i c m' w' where l: "tool_loop e u 0 (allMessages e ms) m ?w1 = (x, i, c, m', w')"
          by (cases "tool_loop e u 0 (allMessages e ms) m ?w1")
        from tool_loop_model_calls [OF refl, of e u 0 "allMessages e ms" m ?w1] l
        obtain qs where "model_calls w' = model_calls w @ ?q # qs"
          and "list_all (\<lambda>q. req_tools q = tools) qs" by auto
        with Inr True m l t show ?thesis by (cases x) (simp_all add: converse_def Let_def)
      qed
    qed
  qed
qed

lemma handle_cases:
  "(\<exists>u ms. handle e req w = converse e u ms w) \<or> snd (handle e req w) = w"
proof (cases "JSON_parse (request_body req)")
  case None
  then show ?thesis by (simp add: handle_def)
next
  case (Some b)
  show ?thesis
  proof (cases "b = JNull")
    case True
    with Some show ?thesis by (simp add: handle_def)
  next
    case nb: False
    have h: "handle e req w =
       (if \<not> truthy (js_prop b ''userId'')
        then (Inr (json_response 400 (error_json ''userId is required'')), w)
        else (case js_prop b ''messages'' of
                Some (JArr ms) \<Rightarrow>
                  if list_ex (\<lambda>m. m = JNull) ms then (Inl TypeError, w)
                  else converse e (js_string (js_prop b ''userId'')) ms w
              | _ \<Rightarrow> (Inl TypeError, w)))"
      using Some nb by (simp add: handle_def Let_def)
    show ?thesis
    proof (cases "truthy (js_prop b ''userId'')")
      case False
      with h show ?thesis by simp
    next
      case True
      show ?thesis
      proof (cases "js_prop b ''messages''")
        case None
        with h True show ?thesis by simp
      next
        case (Some v)
        with h True show ?thesis by (cases v) auto
      qed
    qed
  qed
qed

lemma handle_model_calls:
  "\<exists>qs. model_calls (snd (handle e req w)) = model_calls w @ qs
        \<and> list_all (\<lambda>q. req_tools q = tools) qs"
  using handle_cases [of e req w] converse_model_calls by auto

lemma serve_model_calls:
  "\<exists>qs. model_calls (snd (serve e req w)) = model_calls w @ qs
        \<and> list_all (\<lambda>q. req_tools q = tools) qs"
proof (cases "http_method req = ''OPTIONS''")
  case True
  then show ?thesis by (simp add: serve_def)
next
  case False
  obtain r w' where h: "handle e req w = (r, w')" by (cases "handle e req w")
  with handle_model_calls [of e req w] False show ?thesis
    by (cases r) (simp_all add: serve_def)
qed









lemma stringify_delta:
  \<open>stringify (delta t) = ''{"choices":[{"delta":{"content":'' @ quote t @ ''}}]}''\<close>
  by (simp add: delta_def quote_def quote_char_def)


lemma error_json_texts:
  \<open>error_json ''userId is required'' = JsonText ''{"error":"userId is required"}''\<close>
  \<open>error_json ''Rate limited'' = JsonText ''{"error":"Rate limited"}''\<close>
  \<open>error_json ''Payment required'' = JsonText ''{"error":"Payment required"}''\<close>
  \<open>error_json ''AI gateway error'' = JsonText ''{"error":"AI gateway error"}''\<close>
  by (simp_all add: error_json_def quote_def quote_char_def)


subsection \<open>The table is what the requests sent have made it\<close>







subsection \<open>Evaluation on the concrete requests\<close>




lemma parse_no_user: \<open>JSON_parse ''{"messages":[]}'' = Some (JObj [(''messages'', JArr [])])\<close>
  by code_simp

lemma parse_null: \<open>JSON_parse ''null'' = Some JNull\<close>
  by code_simp















subsection \<open>The iteration cap\<close>







subsection \<open>Failures of the model endpoint\<close>













subsection \<open>The check of the user id\<close>

text \<open>
  C9 (as amended). A request whose method is not \<open>OPTIONS\<close> and whose body is JSON, not
  \<open>null\<close>, without a truthy \<open>userId\<close>: the response is 400 with
  \<open>{"error":"userId is required"}\<close>, and nothing else has happened: no call of the model,
  no request to the store, no log.
\<close>

theorem missing_userId_rejected:
  assumes "http_method req \<noteq> ''OPTIONS''" and "JSON_parse (request_body req) = Some b"
    and "b \<noteq> JNull" and "\<not> truthy (js_prop b ''userId'')"
  shows \<open>serve e req w =
           (\<lparr>http_status = 400, content_type = Some ''application/json'',
             http_body = JsonText ''{"error":"userId is required"}''\<rparr>, w)\<close>
  using assms by (simp add: serve_def handle_def json_response_def error_json_texts)


theorem missing_userId_rejected_witness:
  \<open>http_method \<lparr>http_method = ''POST'', request_body = ''{"messages":[]}''\<rparr> \<noteq> ''OPTIONS''
   \<and> JSON_parse ''{"messages":[]}'' = Some (JObj [(''messages'', JArr [])])
   \<and> \<not> truthy (js_prop (JObj [(''messages'', JArr [])]) ''userId'')
   \<and> serve env0 \<lparr>http_method = ''POST'', request_body = ''{"messages":[]}''\<rparr> w0 =
       (\<lparr>http_status = 400, content_type = Some ''application/json'',
         http_body = JsonText ''{"error":"userId is required"}''\<rparr>, w0)\<close>
proof -
  have 1: \<open>http_method \<lparr>http_method = ''POST'', request_body = ''{"messages":[]}''\<rparr> \<noteq> ''OPTIONS''\<close>
    by simp
  have 2: \<open>JSON_parse (request_body \<lparr>http_method = ''POST'', request_body = ''{"messages":[]}''\<rparr>)
           = Some (JObj [(''messages'', JArr [])])\<close>
    using parse_no_user by simp
  have 3: "JObj [(''messages'', JArr [])] \<noteq> JNull" by simp
  have 4: "\<not> truthy (js_prop (JObj [(''messages'', JArr [])]) ''userId'')" by simp
  from missing_userId_rejected [OF 1 2 3 4, of env0 w0] 1 parse_no_user 4 show ?thesis by simp
qed


text \<open>
  C9 as stated fails for an \<open>OPTIONS\<close> request, answered 200 with no body before the body
  is read, and for the body \<open>null\<close>, whose destructuring throws: status 500.
\<close>

theorem options_or_null_body_not_rejected:
  \<open>JSON_parse ''{"messages":[]}'' = Some (JObj [(''messages'', JArr [])])
   \<and> js_prop (JObj [(''messages'', JArr [])]) ''userId'' = None
   \<and> serve env0 \<lparr>http_method = ''OPTIONS'', request_body = ''{"messages":[]}''\<rparr> w0 =
       (\<lparr>http_status = 200, content_type = None, http_body = NoBody\<rparr>, w0)
   \<and> JSON_parse ''null'' = Some JNull
   \<and> serve env0 \<lparr>http_method = ''POST'', request_body = ''null''\<rparr> w0 =
       (\<lparr>http_status = 500, content_type = Some ''application/json'',
         http_body = CaughtBody TypeError\<rparr>, w0\<lparr>console := [LogCaught TypeError]\<rparr>)\<close>
  by (simp add: serve_def handle_def parse_no_user parse_null json_response_def w0_def)


subsection \<open>The catalog\<close>

text \<open>
  C7 (as amended). The catalog is a constant of five tools, \<open>add_todo(title, due_at?)\<close>,
  \<open>list_todos(completed?)\<close>, \<open>toggle_todo(title)\<close>, \<open>delete_todo(title)\<close> and
  \<open>update_todo(old_title, new_title)\<close>, with these required parameters, and every
  request the handler sends to the model carries it.
\<close>

theorem catalog_attached:
  "map (\<lambda>t. (tool_name t, map (\<lambda>p. (param_name p, param_type p)) (tool_properties t),
              tool_required t)) tools =
     [(''add_todo'', [(''title'', ''string''), (''due_at'', ''string'')], [''title'']),
      (''list_todos'', [(''completed'', ''boolean'')], []),
      (''toggle_todo'', [(''title'', ''string'')], [''title'']),
      (''delete_todo'', [(''title'', ''string'')], [''title'']),
      (''update_todo'', [(''old_title'', ''string''), (''new_title'', ''string'')],
       [''old_title'', ''new_title''])]
   \<and> (\<exists>qs. model_calls (snd (serve e req w)) = model_calls w @ qs
           \<and> list_all (\<lambda>q. req_tools q = tools) qs)"
  using serve_model_calls [of e req w] by (simp add: tools_def)

text \<open>
  C7 as stated fails on the names: the catalog has no \<open>add_task\<close>, and the executor answers
  a call of that name with \<open>Unknown tool\<close>.
\<close>

theorem spec_names_unknown:
  "map tool_name tools = [''add_todo'', ''list_todos'', ''toggle_todo'', ''delete_todo'', ''update_todo'']
   \<and> executeTool env0 ''add_task'' (JObj [(''title'', JStr ''Buy milk'')]) ''u1'' db0
       = (Inr ''Unknown tool: add_task'', db0, [])"
  by (simp add: tools_def executeTool_def)

section \<open>Properties of the stream\<close>

subsection \<open>The payload read back\<close>

lemma hex_value_hex_digit: "k < 16 \<Longrightarrow> hex_value (hex_digit k) = Some k"
proof -
  assume "k < 16"
  then consider "k < 10" | "10 \<le> k" "k < 16" by linarith
  then show ?thesis
  proof cases
    case 1
    then have "of_char (char_of (48 + k)) = 48 + k"
      by (simp add: of_char_of [where 'a = nat])
    with 1 show ?thesis by (simp add: hex_value_def hex_digit_def Let_def)
  next
    case 2
    then have "of_char (char_of (87 + k)) = 87 + k"
      by (simp add: of_char_of [where 'a = nat])
    with 2 show ?thesis by (simp add: hex_value_def hex_digit_def Let_def)
  qed
qed

lemma hex_value_zero: "hex_value CHR ''0'' = Some 0"
  by (simp add: hex_value_def)

lemma hex4_control:
  assumes "n < 32"
  shows "hex4 CHR ''0'' CHR ''0'' (hex_digit (n div 16)) (hex_digit (n mod 16)) = Some n"
proof -
  from assms have a: "n div 16 < 16" and b: "n mod 16 < 16" by simp_all
  show ?thesis
    by (simp add: hex4_def hex_value_zero hex_value_hex_digit [OF a] hex_value_hex_digit [OF b])
qed

lemma parse_chars_quote_char:
  "parse_chars (quote_char c @ s) = add_char [c] (parse_chars s)"
proof -
  consider "c = CHR 0x22" | "c = CHR 0x5C" | "c = CHR 0x08" | "c = CHR 0x09" | "c = CHR 0x0A"
    | "c = CHR 0x0C" | "c = CHR 0x0D"
    | "c \<noteq> CHR 0x22" "c \<noteq> CHR 0x5C" "c \<noteq> CHR 0x08" "c \<noteq> CHR 0x09" "c \<noteq> CHR 0x0A"
      "c \<noteq> CHR 0x0C" "c \<noteq> CHR 0x0D" "(of_char c :: nat) < 32"
    | "c \<noteq> CHR 0x22" "c \<noteq> CHR 0x5C" "\<not> (of_char c :: nat) < 32"
    by (cases "(of_char c :: nat) < 32") auto
  then show ?thesis
  proof cases
    case 8
    from 8(8) have h: "hex4 CHR ''0'' CHR ''0'' (hex_digit (of_char c div 16))
                        (hex_digit (of_char c mod 16)) = Some (of_char c)"
      by (rule hex4_control)
    have u: "utf8 (of_char c) = [c]" using 8(8) by (simp add: utf8_def)
    from 8 h u show ?thesis by (simp add: quote_char_def)
  next
    case 9
    then have "quote_char c = [c]" by (auto simp: quote_char_def)
    with 9 show ?thesis by simp
  qed (simp_all add: quote_char_def unescape_def)
qed

lemma parse_chars_quoted:
  "parse_chars (concat (map quote_char t) @ CHR 0x22 # r) = Some (t, r)"
  by (induction t) (simp_all add: parse_chars_quote_char)

lemma skip_ws_quote [simp]: "skip_ws (CHR 0x22 # s) = CHR 0x22 # s"
  and skip_ws_brace [simp]: "skip_ws (CHR ''{'' # s) = CHR ''{'' # s"
  and skip_ws_bracket [simp]: "skip_ws (CHR ''['' # s) = CHR ''['' # s"
  and skip_ws_close [simp]: "skip_ws (CHR ''}'' # s) = CHR ''}'' # s"
  and skip_ws_close_bracket [simp]: "skip_ws (CHR '']'' # s) = CHR '']'' # s"
  and skip_ws_colon [simp]: "skip_ws (CHR '':'' # s) = CHR '':'' # s"
  and skip_ws_nil [simp]: "skip_ws [] = []"
  by (simp_all add: skip_ws_def is_ws_def)

lemma parse_string_value:
  "parse_value (Suc n) (quote t @ r) = Some (JStr t, r)"
  by (simp add: quote_def parse_chars_quoted)

lemma parse_content_member:
  \<open>parse_members (Suc (Suc n)) (''"content":'' @ quote t @ ''}'' @ r)
     = Some ([(''content'', JStr t)], r)\<close>
proof -
  have k: \<open>parse_chars (''content":'' @ quote t @ ''}'' @ r) = Some (''content'', '':'' @ quote t @ ''}'' @ r)\<close>
    by simp
  have v: "parse_value (Suc n) (quote t @ ''}'' @ r) = Some (JStr t, ''}'' @ r)"
    by (rule parse_string_value)
  show ?thesis
    using k v by (simp del: parse_value.simps parse_chars.simps)
qed

lemma parse_content_object:
  \<open>parse_value (Suc (Suc (Suc n))) (''{"content":'' @ quote t @ ''}'' @ r)
     = Some (JObj [(''content'', JStr t)], r)\<close>
  using parse_content_member [of n t r]
  by (simp del: parse_members.simps add: quote_def)

lemma parse_delta_member:
  \<open>parse_members (Suc (Suc (Suc (Suc n)))) (''"delta":{"content":'' @ quote t @ ''}}'' @ r)
     = Some ([(''delta'', JObj [(''content'', JStr t)])], r)\<close>
proof -
  have k: \<open>parse_chars (''delta":{"content":'' @ quote t @ ''}}'' @ r)
           = Some (''delta'', '':{"content":'' @ quote t @ ''}}'' @ r)\<close>
    by simp
  have v: \<open>parse_value (Suc (Suc (Suc n))) (''{"content":'' @ quote t @ ''}'' @ (''}'' @ r))
           = Some (JObj [(''content'', JStr t)], ''}'' @ r)\<close>
    by (rule parse_content_object)
  show ?thesis
    using k v by (simp del: parse_value.simps parse_chars.simps)
qed

lemma parse_delta_object:
  \<open>parse_value (Suc (Suc (Suc (Suc (Suc n))))) (''{"delta":{"content":'' @ quote t @ ''}}'' @ r)
     = Some (JObj [(''delta'', JObj [(''content'', JStr t)])], r)\<close>
  using parse_delta_member [of n t r]
  by (simp del: parse_members.simps)

lemma parse_choice_elements:
  \<open>parse_elements (Suc (Suc (Suc (Suc (Suc (Suc n))))))
       (''{"delta":{"content":'' @ quote t @ ''}}]'' @ r)
     = Some ([JObj [(''delta'', JObj [(''content'', JStr t)])]], r)\<close>
  using parse_delta_object [of n t "'']'' @ r"]
  by (simp del: parse_value.simps)

lemma parse_choices_array:
  \<open>parse_value (Suc (Suc (Suc (Suc (Suc (Suc (Suc n)))))))
       (''[{"delta":{"content":'' @ quote t @ ''}}]'' @ r)
     = Some (JArr [JObj [(''delta'', JObj [(''content'', JStr t)])]], r)\<close>
  using parse_choice_elements [of n t r]
  by (simp del: parse_elements.simps)

lemma parse_choices_member:
  \<open>parse_members (Suc (Suc (Suc (Suc (Suc (Suc (Suc (Suc n))))))))
       (''"choices":[{"delta":{"content":'' @ quote t @ ''}}]}'' @ r)
     = Some ([(''choices'', JArr [JObj [(''delta'', JObj [(''content'', JStr t)])]])], r)\<close>
proof -
  have k: \<open>parse_chars (''choices":[{"delta":{"content":'' @ quote t @ ''}}]}'' @ r)
           = Some (''choices'', '':[{"delta":{"content":'' @ quote t @ ''}}]}'' @ r)\<close>
    by simp
  have v: \<open>parse_value (Suc (Suc (Suc (Suc (Suc (Suc (Suc n)))))))
       (''[{"delta":{"content":'' @ quote t @ ''}}]'' @ (''}'' @ r))
     = Some (JArr [JObj [(''delta'', JObj [(''content'', JStr t)])]], ''}'' @ r)\<close>
    by (rule parse_choices_array)
  show ?thesis
    using k v by (simp del: parse_value.simps parse_chars.simps)
qed

lemma parse_delta_text:
  "parse_value (Suc (Suc (Suc (Suc (Suc (Suc (Suc (Suc (Suc n))))))))) (stringify (delta t) @ r)
     = Some (delta t, r)"
  using parse_choices_member [of n t r]
  unfolding stringify_delta by (simp del: parse_members.simps add: delta_def)

lemma JSON_parse_delta: "JSON_parse (stringify (delta t)) = Some (delta t)"
proof -
  have "9 \<le> 2 * length (stringify (delta t)) + 1" by (simp add: stringify_delta)
  then obtain n where n: "2 * length (stringify (delta t)) + 1 = 9 + n"
    using le_Suc_ex by blast
  have "9 + n = Suc (Suc (Suc (Suc (Suc (Suc (Suc (Suc (Suc n))))))))" by simp
  with n have "parse_value (2 * length (stringify (delta t)) + 1) (stringify (delta t) @ [])
        = Some (delta t, [])"
    using parse_delta_text [of n t "[]"] by simp
  then show ?thesis by (simp add: JSON_parse_def)
qed

subsection \<open>Trimming a text that starts and ends with ASCII characters other than white space\<close>

lemma wide_spaces_hd: "list_all (\<lambda>w. w \<noteq> [] \<and> 128 \<le> (of_char (hd w) :: nat)) wide_spaces"
  by (simp add: wide_spaces_def)

lemma wide_spaces_last: "list_all (\<lambda>w. w \<noteq> [] \<and> 128 \<le> (of_char (last w) :: nat)) wide_spaces"
  by (simp add: wide_spaces_def)

lemma space_prefix_ascii:
  assumes "\<not> ascii_space c" and "(of_char c :: nat) < 128"
  shows "space_prefix (c # s) = 0"
proof -
  have "\<not> list_ex (\<lambda>w. take (length w) (c # s) = w) wide_spaces"
  proof
    assume "list_ex (\<lambda>w. take (length w) (c # s) = w) wide_spaces"
    then obtain w where w: "w \<in> set wide_spaces" "take (length w) (c # s) = w"
      by (auto simp: list_ex_iff)
    from w(1) wide_spaces_hd have h: "w \<noteq> []" "128 \<le> (of_char (hd w) :: nat)"
      by (auto simp: list_all_iff)
    from h(1) w(2) have "hd w = c" by (cases w) auto
    with h(2) assms(2) show False by simp
  qed
  with assms(1) show ?thesis by (simp add: space_prefix_def)
qed

lemma space_suffix_ascii:
  assumes "s \<noteq> []" and "\<not> ascii_space (last s)" and "(of_char (last s) :: nat) < 128"
  shows "space_suffix s = 0"
proof -
  have "\<not> list_ex (\<lambda>w. drop (length s - length w) s = w \<and> length w \<le> length s) wide_spaces"
  proof
    assume "list_ex (\<lambda>w. drop (length s - length w) s = w \<and> length w \<le> length s) wide_spaces"
    then obtain w where w: "w \<in> set wide_spaces" "drop (length s - length w) s = w"
      by (auto simp: list_ex_iff)
    from w(1) wide_spaces_last have h: "w \<noteq> []" "128 \<le> (of_char (last w) :: nat)"
      by (auto simp: list_all_iff)
    from h(1) w(2) have "last s = last w" by (metis last_drop drop_eq_Nil not_le)
    with h(2) assms(3) show False by simp
  qed
  with assms(1,2) show ?thesis by (simp add: space_suffix_def)
qed

lemma trim_ascii_ends:
  assumes "\<not> ascii_space c" and "(of_char c :: nat) < 128"
    and "\<not> ascii_space d" and "(of_char d :: nat) < 128"
  shows "trim (c # s @ [d]) = c # s @ [d]"
proof -
  have 1: "trimStart (c # s @ [d]) = c # s @ [d]"
    by (subst trimStart.simps) (simp add: space_prefix_ascii [OF assms(1,2)])
  have "space_suffix (c # s @ [d]) = 0"
    using assms(3,4) by (intro space_suffix_ascii) simp_all
  then have 2: "trimEnd (c # s @ [d]) = c # s @ [d]"
    by (subst trimEnd.simps) simp
  from 1 2 show ?thesis by (simp add: trim_def)
qed

lemma trim_nil [simp]: "trim [] = []"
proof -
  have "trimStart [] = []" by (subst trimStart.simps) (simp add: space_prefix_def)
  moreover have "trimEnd [] = []" by (subst trimEnd.simps) (simp add: space_suffix_def)
  ultimately show ?thesis by (simp add: trim_def)
qed

lemma trim_nl [simp]: "trim [CHR 0x0A] = []"
proof -
  have "trimStart [CHR 0x0A] = trimStart []"
    by (subst trimStart.simps) (simp add: space_prefix_def ascii_space_def)
  also have "\<dots> = []" by (subst trimStart.simps) (simp add: space_prefix_def)
  finally have "trimStart [CHR 0x0A] = []" .
  moreover have "trimEnd [] = []" by (subst trimEnd.simps) (simp add: space_suffix_def)
  ultimately show ?thesis by (simp add: trim_def)
qed

subsection \<open>The lines of the stream\<close>

lemma split_line_none: "CHR 0x0A \<notin> set x \<Longrightarrow> split_line x = None"
  by (induction x) auto

lemma split_line_at: "CHR 0x0A \<notin> set x \<Longrightarrow> split_line (x @ CHR 0x0A # y) = Some (x, y)"
  by (induction x) auto

lemma hex_digit_not_nl: "k < 16 \<Longrightarrow> hex_digit k \<noteq> CHR 0x0A"
proof
  assume k: "k < 16" and e: "hex_digit k = CHR 0x0A"
  from hex_value_hex_digit [OF k] e have "hex_value (CHR 0x0A) = Some k" by simp
  then show False by (simp add: hex_value_def)
qed

lemma quote_char_no_nl: "CHR 0x0A \<notin> set (quote_char c)"
proof (cases "(of_char c :: nat) < 32")
  case True
  then have "of_char c div 16 < (16::nat)" "of_char c mod 16 < (16::nat)" by simp_all
  then have "hex_digit (of_char c div 16) \<noteq> CHR 0x0A" "hex_digit (of_char c mod 16) \<noteq> CHR 0x0A"
    by (simp_all add: hex_digit_not_nl)
  then have "CHR 0x0A \<noteq> hex_digit (of_char c div 16)" "CHR 0x0A \<noteq> hex_digit (of_char c mod 16)"
    by metis+
  then show ?thesis
    by (simp add: quote_char_def)
next
  case False
  then show ?thesis by (auto simp: quote_char_def)
qed

lemma quote_no_nl: "CHR 0x0A \<notin> set (quote t)"
  using quote_char_no_nl by (auto simp: quote_def)

lemma payload_no_nl: "CHR 0x0A \<notin> set (stringify (delta t))"
  using quote_no_nl [of t] by (simp add: stringify_delta)

lemma payload_ends:
  \<open>\<exists>s. stringify (delta t) = CHR ''{'' # s @ [CHR ''}'']\<close>
  by (simp add: stringify_delta)

lemma trim_payload: "trim (stringify (delta t)) = stringify (delta t)"
proof -
  from payload_ends obtain s where s: "stringify (delta t) = CHR ''{'' # s @ [CHR ''}'']" by blast
  show ?thesis unfolding s by (rule trim_ascii_ends) (simp_all add: ascii_space_def)
qed

lemma trim_data_line:
  "trim (''data: '' @ stringify (delta t)) = ''data: '' @ stringify (delta t)"
proof -
  from payload_ends obtain s where s: "stringify (delta t) = CHR ''{'' # s @ [CHR ''}'']" by blast
  have "trim (CHR ''d'' # (''ata: {'' @ s) @ [CHR ''}'']) = CHR ''d'' # (''ata: {'' @ s) @ [CHR ''}'']"
    by (rule trim_ascii_ends) (simp_all add: ascii_space_def)
  then show ?thesis by (simp add: s)
qed

lemma apply_payload_delta:
  assumes "t \<noteq> []"
  shows "apply_payload b (stringify (delta t)) u = Some (upsertAssistant t u)"
proof -
  have d: "delta_of (delta t) = Some (JObj [(''content'', JStr t)])"
    by (simp add: delta_of_def delta_def)
  have n: "delta t \<noteq> JNull" by (simp add: delta_def)
  show ?thesis
    using assms by (simp add: apply_payload_def JSON_parse_delta n d js_string_def)
qed

lemma process_lines_partial:
  "CHR 0x0A \<notin> set x \<Longrightarrow> process_lines x u = (x, u)"
  by (subst process_lines.simps) (simp add: split_line_none)

lemma process_lines_blank:
  "process_lines (CHR 0x0A # y) u = process_lines y u"
  by (subst process_lines.simps) (simp add: strip_cr_def)

lemma process_lines_line:
  assumes "CHR 0x0A \<notin> set l"
  shows "process_lines (l @ CHR 0x0A # rest) u =
     (let line = strip_cr l
      in if take 1 line = '':'' \<or> trim line = [] then process_lines rest u
         else if take 6 line \<noteq> ''data: '' then process_lines rest u
         else if trim (drop 6 line) = ''[DONE]'' then (rest, u)
         else (case apply_payload True (trim (drop 6 line)) u of
                 None \<Rightarrow> (line @ [CHR 0x0A] @ rest, u)
               | Some u' \<Rightarrow> process_lines rest u'))"
  by (subst process_lines.simps) (simp add: split_line_at [OF assms] del: split_line.simps)

lemma process_lines_data:
  assumes "t \<noteq> []"
  shows "process_lines (''data: '' @ stringify (delta t) @ CHR 0x0A # y) u
         = process_lines y (upsertAssistant t u)"
proof -
  let ?J = "stringify (delta t)"
  define L where "L = ''data: '' @ ?J"
  from payload_ends obtain s where s: "?J = CHR ''{'' # s @ [CHR ''}'']" by blast
  have nl: "CHR 0x0A \<notin> set L" using payload_no_nl [of t] by (simp add: L_def)
  have cr: "strip_cr L = L" by (simp add: strip_cr_def L_def s)
  have t1: "take 1 L \<noteq> '':''" by (simp add: L_def)
  have tr: "trim L = L" unfolding L_def by (rule trim_data_line)
  have ne: "L \<noteq> []" by (simp add: L_def)
  have t6: "take 6 L = ''data: ''" by (simp add: L_def)
  have d6: "drop 6 L = ?J" by (simp add: L_def)
  have nd: \<open>?J \<noteq> ''[DONE]''\<close> by (simp add: s)
  have "process_lines (L @ CHR 0x0A # y) u = process_lines y (upsertAssistant t u)"
    unfolding process_lines_line [OF nl]
    by (simp only: Let_def cr t1 tr ne t6 d6 trim_payload nd apply_payload_delta [OF assms]
          simp_thms if_False if_True option.case)
  then show ?thesis by (simp add: L_def)
qed

lemma process_lines_done:
  "process_lines (''data: [DONE]'' @ CHR 0x0A # z) u = (z, u)"
proof -
  have sp: "split_line (''data: [DONE]'' @ CHR 0x0A # z) = Some (''data: [DONE]'', z)"
    by (rule split_line_at) simp
  have t1: "trim ''data: [DONE]'' = ''data: [DONE]''"
    using trim_ascii_ends [of "CHR ''d''" "CHR '']''" "''ata: [DONE''"]
    by (simp add: ascii_space_def)
  have t2: "trim ''[DONE]'' = ''[DONE]''"
    using trim_ascii_ends [of "CHR ''[''" "CHR '']''" "''DONE''"]
    by (simp add: ascii_space_def)
  show ?thesis
    using sp
    by (subst process_lines.simps) (simp add: strip_cr_def t1 t2 del: split_line.simps)
qed

subsection \<open>Every segmentation of the stream\<close>

lemma stream_text:
  "concat (stream t) = (''data: '' @ stringify (delta t)) @ CHR 0x0A # CHR 0x0A # done_text"
  by (simp add: stream_def nl_def done_text_def)

lemma after_done:
  assumes "x @ rem = [CHR 0x0A] \<or> x @ rem = []"
  shows "\<exists>b. process_lines x u = (b, u) \<and> (b @ rem = [CHR 0x0A] \<or> b @ rem = [])"
proof (cases "x = []")
  case True
  with assms show ?thesis by (simp add: process_lines_partial)
next
  case False
  with assms have x: "x = [CHR 0x0A]" and r: "rem = []"
    by (auto simp: append_eq_Cons_conv)
  have "process_lines x u = ([], u)"
    unfolding x by (simp add: process_lines_blank process_lines_partial)
  with r show ?thesis by simp
qed

lemma in_done:
  assumes "x @ rem = done_text"
  shows "\<exists>b. process_lines x u = (b, u)
           \<and> ((b @ rem = done_text \<and> CHR 0x0A \<notin> set b) \<or> b @ rem = [CHR 0x0A] \<or> b @ rem = [])"
proof -
  from assms have "x @ rem = ''data: [DONE]'' @ [CHR 0x0A, CHR 0x0A]" by (simp add: done_text_def)
  then consider w where "x = ''data: [DONE]'' @ w" "w @ rem = [CHR 0x0A, CHR 0x0A]"
    | w where "x @ w = ''data: [DONE]''" "rem = w @ [CHR 0x0A, CHR 0x0A]"
    by (auto simp only: append_eq_append_conv2)
  then show ?thesis
  proof cases
    case 1
    show ?thesis
    proof (cases w)
      case Nil
      with 1 have "CHR 0x0A \<notin> set x" by simp
      with assms show ?thesis by (simp add: process_lines_partial)
    next
      case (Cons c w')
      with 1 have c: "c = CHR 0x0A" and w': "w' @ rem = [CHR 0x0A]" by simp_all
      from 1 Cons c have "process_lines x u = (w', u)" by (simp only: process_lines_done)
      with w' show ?thesis by simp
    qed
  next
    case 2
    then have "set x \<subseteq> set ''data: [DONE]''" by (metis set_append Un_upper1)
    then have "CHR 0x0A \<notin> set x" by auto
    with assms show ?thesis by (simp add: process_lines_partial)
  qed
qed

lemma in_blank_done:
  assumes "x @ rem = CHR 0x0A # done_text"
  shows "\<exists>b. process_lines x u = (b, u)
           \<and> ((b = [] \<and> rem = CHR 0x0A # done_text)
              \<or> (b @ rem = done_text \<and> CHR 0x0A \<notin> set b) \<or> b @ rem = [CHR 0x0A] \<or> b @ rem = [])"
proof (cases x)
  case Nil
  with assms show ?thesis by (simp add: process_lines_partial)
next
  case (Cons c x')
  with assms have c: "c = CHR 0x0A" and x': "x' @ rem = done_text" by simp_all
  from in_done [OF x', of u] Cons c show ?thesis by (auto simp: process_lines_blank)
qed

lemma in_stream:
  assumes t: "t \<noteq> []" and "x @ rem = concat (stream t)"
  shows "\<exists>b u'. process_lines x u = (b, u')
           \<and> ((b @ rem = concat (stream t) \<and> CHR 0x0A \<notin> set b \<and> u' = u)
              \<or> (u' = upsertAssistant t u
                  \<and> ((b = [] \<and> rem = CHR 0x0A # done_text)
                     \<or> (b @ rem = done_text \<and> CHR 0x0A \<notin> set b)
                     \<or> b @ rem = [CHR 0x0A] \<or> b @ rem = [])))"
proof -
  let ?L = "''data: '' @ stringify (delta t)"
  have nl: "CHR 0x0A \<notin> set ?L" using payload_no_nl [of t] by simp
  from assms(2) have "x @ rem = ?L @ CHR 0x0A # CHR 0x0A # done_text" by (simp only: stream_text)
  then consider w where "x = ?L @ w" "w @ rem = CHR 0x0A # CHR 0x0A # done_text"
    | w where "x @ w = ?L" "rem = w @ CHR 0x0A # CHR 0x0A # done_text"
    by (auto simp only: append_eq_append_conv2)
  then show ?thesis
  proof cases
    case 1
    show ?thesis
    proof (cases w)
      case Nil
      with 1 nl have "CHR 0x0A \<notin> set x" by simp
      with assms show ?thesis by (simp add: process_lines_partial)
    next
      case (Cons c w')
      with 1 have c: "c = CHR 0x0A" and w': "w' @ rem = CHR 0x0A # done_text" by simp_all
      from 1 Cons c have "process_lines x u = process_lines w' (upsertAssistant t u)"
        using process_lines_data [OF t, of w' u] by simp
      with in_blank_done [OF w', of "upsertAssistant t u"] show ?thesis by auto
    qed
  next
    case 2
    then have "set x \<subseteq> set ?L" by (metis set_append Un_upper1)
    with nl have "CHR 0x0A \<notin> set x" by blast
    with assms show ?thesis by (simp add: process_lines_partial)
  qed
qed

lemma staged_step:
  assumes t: "t \<noteq> []" and s: "staged t u0 b u (ch @ rem)"
  shows "\<exists>b' u'. process_lines (b @ ch) u = (b', u') \<and> staged t u0 b' u' rem"
proof -
  from s consider
      (A) "b @ ch @ rem = concat (stream t)" "u = u0"
    | (B) "b = []" "ch @ rem = CHR 0x0A # done_text" "u = upsertAssistant t u0"
    | (C) "b @ ch @ rem = done_text" "u = upsertAssistant t u0"
    | (E) "b @ ch @ rem = [CHR 0x0A] \<or> b @ ch @ rem = []" "u = upsertAssistant t u0"
    by (auto simp: staged_def)
  then show ?thesis
  proof cases
    case A
    from in_stream [OF t, of "b @ ch" rem u] A show ?thesis by (auto simp: staged_def)
  next
    case B
    from in_blank_done [of "b @ ch" rem u] B show ?thesis by (auto simp: staged_def)
  next
    case C
    from in_done [of "b @ ch" rem u] C show ?thesis by (auto simp: staged_def)
  next
    case E
    from after_done [of "b @ ch" rem u] E show ?thesis by (auto simp: staged_def)
  qed
qed

lemma staged_end:
  assumes "staged t u0 b u []"
  shows "u = upsertAssistant t u0 \<and> (b = [] \<or> b = [CHR 0x0A])"
proof -
  have "CHR 0x0A \<in> set (concat (stream t))" by (simp add: stream_text)
  moreover have "CHR 0x0A \<in> set done_text" by (simp add: done_text_def)
  ultimately show ?thesis using assms by (auto simp: staged_def)
qed

lemma read_chunks_staged:
  assumes t: "t \<noteq> []"
  shows "staged t u0 b u (concat chunks) \<Longrightarrow>
         \<exists>b'. read_chunks chunks b u = (b', upsertAssistant t u0) \<and> (b' = [] \<or> b' = [CHR 0x0A])"
proof (induction chunks arbitrary: b u)
  case Nil
  then have "staged t u0 b u []" by simp
  from staged_end [OF this] show ?case by simp
next
  case (Cons ch chunks)
  then have "staged t u0 b u (ch @ concat chunks)" by simp
  from staged_step [OF t this] obtain b1 u1 where
    p: "process_lines (b @ ch) u = (b1, u1)" and s: "staged t u0 b1 u1 (concat chunks)" by blast
  from Cons.IH [OF s] p show ?case by simp
qed

lemma read_stream:
  assumes "t \<noteq> []" and "concat chunks = concat (stream t)"
  shows "\<exists>b. read_chunks chunks [] u = (b, upsertAssistant t u) \<and> (b = [] \<or> b = [CHR 0x0A])"
proof -
  have "staged t u [] u (concat chunks)" using assms(2) by (simp add: staged_def)
  from read_chunks_staged [OF assms(1) this] show ?thesis .
qed

lemma flush_nothing: "b = [] \<or> b = [CHR 0x0A] \<Longrightarrow> flush b u = u"
  by (auto simp: flush_def)

lemma finalContent_not_empty: "finalContent m \<noteq> []"
  by (simp add: finalContent_def split: option.splits)


text \<open>
  C1. The settled content of any assistant message (its text, or \<open>Done!\<close>), encoded by the
  handler as one \<open>data:\<close> event and the \<open>[DONE]\<close> event, and delivered to \<open>send\<close> in chunks
  cut anywhere, inside a line as well: the transcript gains the user's message and one
  assistant message with that content, nothing else; that message is the one stored and
  read aloud, and the task panel is refreshed once.
\<close>

theorem stream_round_trip:
  assumes "concat chunks = concat (stream (finalContent m))"
  shows "send True input (Reply 200 (Some chunks)) p =
           p\<lparr>transcript := transcript p @ [\<lparr>msg_role = User, msg_content = input\<rparr>,
                                            \<lparr>msg_role = AssistantRole,
                                             msg_content = finalContent m\<rparr>],
             refresh := Suc (refresh p),
             chat_messages := chat_messages p @ [\<lparr>msg_role = User, msg_content = input\<rparr>,
                                                  \<lparr>msg_role = AssistantRole,
                                                   msg_content = finalContent m\<rparr>],
             spoken := spoken p @ [finalContent m]\<rparr>"
proof -
  let ?t = "finalContent m"
  let ?u = "\<lparr>messages = transcript p @ [\<lparr>msg_role = User, msg_content = input\<rparr>],
            todoRefresh = refresh p, assistantSoFar = []\<rparr>"
  from read_stream [OF finalContent_not_empty assms, of ?u]
  obtain b where r: "read_chunks chunks [] ?u = (b, upsertAssistant ?t ?u)"
    and b: "b = [] \<or> b = [CHR 0x0A]" by blast
  have f: "flush b (upsertAssistant ?t ?u) = upsertAssistant ?t ?u"
    using b by (rule flush_nothing)
  have u: "upsertAssistant ?t ?u =
     \<lparr>messages = transcript p @ [\<lparr>msg_role = User, msg_content = input\<rparr>,
                                  \<lparr>msg_role = AssistantRole, msg_content = ?t\<rparr>],
      todoRefresh = refresh p, assistantSoFar = ?t\<rparr>"
    by (simp add: upsertAssistant_def Let_def)
  show ?thesis
    using finalContent_not_empty [of m]
    by (simp add: send_def Let_def r [unfolded u] f [unfolded u])
qed


theorem stream_round_trip_witness:
  \<open>finalContent added_milk = ''Added task: "Buy milk"''
   \<and> take 20 (concat (stream (finalContent added_milk))) = ''data: {"choices":[{"''
   \<and> concat [take 20 (concat (stream (finalContent added_milk))),
             drop 20 (concat (stream (finalContent added_milk)))]
       = concat (stream (finalContent added_milk))
   \<and> transcript (send True ''add milk''
        (Reply 200 (Some [take 20 (concat (stream (finalContent added_milk))),
                          drop 20 (concat (stream (finalContent added_milk)))])) page0)
       = [\<lparr>msg_role = User, msg_content = ''add milk''\<rparr>,
          \<lparr>msg_role = AssistantRole, msg_content = finalContent added_milk\<rparr>]\<close>
proof -
  have h: "concat [take 20 (concat (stream (finalContent added_milk))),
             drop 20 (concat (stream (finalContent added_milk)))]
       = concat (stream (finalContent added_milk))"
    by simp
  have c: \<open>take 20 (concat (stream (finalContent added_milk))) = ''data: {"choices":[{"''\<close>
    by (simp add: stream_text stringify_delta)
  have t: \<open>finalContent added_milk = ''Added task: "Buy milk"''\<close>
    by (simp add: finalContent_def added_milk_def dq_def)
  have tr: "transcript (send True ''add milk''
        (Reply 200 (Some [take 20 (concat (stream (finalContent added_milk))),
                          drop 20 (concat (stream (finalContent added_milk)))])) page0)
       = [\<lparr>msg_role = User, msg_content = ''add milk''\<rparr>,
          \<lparr>msg_role = AssistantRole, msg_content = finalContent added_milk\<rparr>]"
    unfolding stream_round_trip [OF h, of "''add milk''" page0] by (simp add: page0_def)
  from t c h tr show ?thesis by (intro conjI)
qed

end
